theory Spec2Isabelle
  imports Main "HOL-Library.Sublist"
begin

section \<open>Values and errors of the page script\<close>

text \<open>
  The options page is a script (\<^verbatim>\<open>src/main/pages/js/options.js\<close>) that runs on the single
  rendering thread of the page. Objects are references: a filter object handed to the
  filter cache is shared between the list \<^verbatim>\<open>filters\<close>, the index \<^verbatim>\<open>filtersById\<close> and the
  caller. The model keeps a store of filter objects, addressed by natural numbers, and
  passes the state explicitly.

  A property of an object that is missing reads as \<^verbatim>\<open>undefined\<close>; such a property has an
  option type here, \<open>None\<close> being \<^verbatim>\<open>undefined\<close>. Reading a property of \<^verbatim>\<open>undefined\<close> or
  \<^verbatim>\<open>null\<close> raises a \<^verbatim>\<open>TypeError\<close>; a selector the browser cannot parse raises a
  \<^verbatim>\<open>SyntaxError\<close>; \<^verbatim>\<open>insertBefore\<close> with a reference node that is not a child raises a
  \<^verbatim>\<open>NotFoundError\<close>. An exception aborts the function that raised it.
\<close>

datatype error = TypeError | SyntaxError | NotFoundError

type_synonym addr = nat

text \<open>Truthiness of a boolean-or-undefined value.\<close>

fun truthy_bool :: "bool option \<Rightarrow> bool" where
  "truthy_bool None = False"
| "truthy_bool (Some b) = b"

section \<open>The filter metadata cache \<^verbatim>\<open>loadedFiltersInfo\<close>\<close>

text \<open>
  A filter object as the cache reads it. \<^verbatim>\<open>timeUpdated\<close> is the time shown next to a filter
  by \<^verbatim>\<open>getFilterTemplate\<close>; \<^verbatim>\<open>lastUpdateTime\<close> is the property the cache reads.
\<close>

record Filter =
  filterId :: int
  groupId :: int
  enabled :: "bool option"
  timeUpdated :: "int option"
  lastUpdateTime :: "int option"

record Category =
  categoryGroupId :: int
  groupName :: string

text \<open>
  The cache object (lines 369--407) together with the store of filter objects its
  references point into. \<^verbatim>\<open>filters\<close> is an array of references, \<^verbatim>\<open>filtersById\<close> an object
  used as a dictionary from filter id to reference.
\<close>

record loadedFiltersInfo =
  heap :: "addr \<Rightarrow> Filter"
  filters :: "addr list"
  categories :: "Category list"
  filtersById :: "int \<rightharpoonup> addr"
  lastUpdateTime :: int

text \<open>The object literal of lines 369--373, over a given store.\<close>

definition initialInfo :: "(addr \<Rightarrow> Filter) \<Rightarrow> loadedFiltersInfo" where
  "initialInfo h =
     \<lparr>heap = h, filters = [], categories = [], filtersById = Map.empty, lastUpdateTime = 0\<rparr>"

text \<open>
  The loop of \<^verbatim>\<open>initLoadedFilters\<close> (lines 381--387): the accumulator is the pair of the
  local variables \<^verbatim>\<open>filtersById\<close> and \<^verbatim>\<open>lastUpdateTime\<close>.
\<close>

fun initLoop :: "(addr \<Rightarrow> Filter) \<Rightarrow> addr list \<Rightarrow> (int \<rightharpoonup> addr) \<times> int \<Rightarrow> (int \<rightharpoonup> addr) \<times> int" where
  "initLoop h [] acc = acc"
| "initLoop h (a # as) (byId, lut) =
     initLoop h as
       (byId(filterId (h a) \<mapsto> a),
        (case Filter.lastUpdateTime (h a) of
           None \<Rightarrow> lut
         | Some t \<Rightarrow> if t \<noteq> 0 \<and> t > lut then t else lut))"

definition initLoadedFilters :: "loadedFiltersInfo \<Rightarrow> addr list \<Rightarrow> Category list \<Rightarrow> loadedFiltersInfo" where
  "initLoadedFilters c fs cats =
     (let (byId, lut) = initLoop (heap c) fs (Map.empty, 0)
      in c\<lparr>filters := fs, categories := cats, filtersById := byId,
            loadedFiltersInfo.lastUpdateTime := lut\<rparr>)"

text \<open>
  Reading \<^verbatim>\<open>info.enabled\<close>: a \<^verbatim>\<open>TypeError\<close> when \<^verbatim>\<open>info\<close> is \<^verbatim>\<open>undefined\<close>.
\<close>

fun read_enabled :: "(addr \<Rightarrow> Filter) \<Rightarrow> addr option \<Rightarrow> error + bool option" where
  "read_enabled h None = Inl TypeError"
| "read_enabled h (Some a) = Inr (enabled (h a))"

text \<open>
  \<^verbatim>\<open>isEnabled\<close> (lines 393--396) returns \<^verbatim>\<open>info && info.enabled\<close>: the left operand when it
  is falsy (an absent entry reads as \<^verbatim>\<open>undefined\<close>), the right one otherwise.
\<close>

definition isEnabled :: "loadedFiltersInfo \<Rightarrow> int \<Rightarrow> error + bool option" where
  "isEnabled c fid =
     (let info = filtersById c fid
      in if info = None then Inr None else read_enabled (heap c) info)"

text \<open>
  \<^verbatim>\<open>updateEnabled\<close> (lines 398--406). The argument \<open>f\<close> is a reference to a filter object of
  the store; \<open>en\<close> is the value passed as \<^verbatim>\<open>enabled\<close>.
\<close>

definition updateEnabled :: "loadedFiltersInfo \<Rightarrow> addr \<Rightarrow> bool option \<Rightarrow> loadedFiltersInfo" where
  "updateEnabled c f en =
     (case filtersById c (filterId (heap c f)) of
        Some info \<Rightarrow> c\<lparr>heap := (heap c)(info := (heap c info)\<lparr>enabled := en\<rparr>)\<rparr>
      | None \<Rightarrow> c\<lparr>filters := filters c @ [f],
                  filtersById := (filtersById c)(filterId (heap c f) \<mapsto> f)\<rparr>)"

text \<open>
  \<^verbatim>\<open>setLastUpdatedTimeText\<close> (lines 832--847). The text is built by the date library from
  the cache's time; \<open>fmt\<close> stands for that formatting. The function returns the cache and
  the text it writes to the element \<^verbatim>\<open>#lastUpdateTime\<close>.
\<close>

definition setLastUpdatedTimeText ::
  "(int \<Rightarrow> string) \<Rightarrow> loadedFiltersInfo \<Rightarrow> int option \<Rightarrow> loadedFiltersInfo \<times> string" where
  "setLastUpdatedTimeText fmt c t =
     (let c1 = (case t of
                  None \<Rightarrow> c
                | Some v \<Rightarrow>
                    if v \<noteq> 0 \<and> v > loadedFiltersInfo.lastUpdateTime c
                    then c\<lparr>loadedFiltersInfo.lastUpdateTime := v\<rparr> else c);
          t1 = loadedFiltersInfo.lastUpdateTime c1;
          updateText = (if t1 \<noteq> 0 then fmt t1 else [])
      in (c1, updateText))"

text \<open>
  The cache is driven by calls of these three functions. A sequence of calls is a list of
  operations, applied from left to right.
\<close>

datatype cache_op =
  InitLoadedFilters "addr list" "Category list"
| UpdateEnabled addr "bool option"
| SetLastUpdatedTimeText "int option"

fun apply_cache_op :: "(int \<Rightarrow> string) \<Rightarrow> loadedFiltersInfo \<Rightarrow> cache_op \<Rightarrow> loadedFiltersInfo" where
  "apply_cache_op fmt c (InitLoadedFilters fs cats) = initLoadedFilters c fs cats"
| "apply_cache_op fmt c (UpdateEnabled f en) = updateEnabled c f en"
| "apply_cache_op fmt c (SetLastUpdatedTimeText t) = fst (setLastUpdatedTimeText fmt c t)"

fun run_cache_ops :: "(int \<Rightarrow> string) \<Rightarrow> loadedFiltersInfo \<Rightarrow> cache_op list \<Rightarrow> loadedFiltersInfo" where
  "run_cache_ops fmt c [] = c"
| "run_cache_ops fmt c (x # xs) = run_cache_ops fmt (apply_cache_op fmt c x) xs"

fun is_init :: "cache_op \<Rightarrow> bool" where
  "is_init (InitLoadedFilters fs cats) = True"
| "is_init (UpdateEnabled f en) = False"
| "is_init (SetLastUpdatedTimeText t) = False"

text \<open>
  The consistency of the index with the list: the entry of a filter id is the last
  reference of the list whose object carries that id, and there is no entry when no
  object of the list carries it.
\<close>

definition lastWithId :: "(addr \<Rightarrow> Filter) \<Rightarrow> addr list \<Rightarrow> int \<Rightarrow> addr option" where
  "lastWithId h fs fid = List.find (\<lambda>a. filterId (h a) = fid) (rev fs)"

definition consistent :: "loadedFiltersInfo \<Rightarrow> bool" where
  "consistent c \<longleftrightarrow> (\<forall>fid. filtersById c fid = lastWithId (heap c) (filters c) fid)"

text \<open>
  The filter objects of the specification's examples; each store holds the same object at
  every address.
\<close>

definition filter2 :: Filter where
  "filter2 = \<lparr>filterId = 2, groupId = 10, enabled = None, timeUpdated = None,
               lastUpdateTime = None\<rparr>"

definition heap2 :: "addr \<Rightarrow> Filter" where
  "heap2 a = filter2"

definition filter1 :: "int option \<Rightarrow> int option \<Rightarrow> Filter" where
  "filter1 tu lut = \<lparr>filterId = 1, groupId = 10, enabled = Some True, timeUpdated = tu,
                     lastUpdateTime = lut\<rparr>"

definition heap1_timeUpdated :: "addr \<Rightarrow> Filter" where
  "heap1_timeUpdated a = filter1 (Some 100) None"

definition heap1_lastUpdateTime :: "addr \<Rightarrow> Filter" where
  "heap1_lastUpdateTime a = filter1 None (Some 100)"

section \<open>The editors of the whitelist and of the user rules\<close>

text \<open>
  \<^verbatim>\<open>WhiteListFilter\<close> (lines 218--290) and \<^verbatim>\<open>UserFilter\<close> (lines 298--357) are two closures
  of the same shape: a counter \<^verbatim>\<open>omitRenderEventsCount\<close>, an editor, and the functions that
  load, save and update. The state of a closure is a record; \<open>readOnly\<close> is the editor's
  read-only flag. The bodies of \<^verbatim>\<open>loadWhiteListDomains\<close> and \<^verbatim>\<open>loadUserRules\<close> are commented
  out in the source (the request to the backend is a TODO), so a reload is observable
  only as a call: \<open>loadCalls\<close> counts the calls of the load function.
\<close>

record RulesEditor =
  omitRenderEventsCount :: int
  readOnly :: bool
  loadCalls :: nat

definition newRulesEditor :: RulesEditor where
  "newRulesEditor = \<lparr>omitRenderEventsCount = 0, readOnly = False, loadCalls = 0\<rparr>"

definition loadWhiteListDomains :: "RulesEditor \<Rightarrow> RulesEditor" where
  "loadWhiteListDomains s = s\<lparr>loadCalls := Suc (loadCalls s)\<rparr>"

definition saveWhiteListDomains :: "RulesEditor \<Rightarrow> RulesEditor" where
  "saveWhiteListDomains s = s\<lparr>omitRenderEventsCount := 1, readOnly := True\<rparr>"

definition updateWhiteListDomains :: "RulesEditor \<Rightarrow> RulesEditor" where
  "updateWhiteListDomains s =
     (if omitRenderEventsCount s > 0
      then s\<lparr>omitRenderEventsCount := omitRenderEventsCount s - 1\<rparr>
      else loadWhiteListDomains s)"

definition loadUserRules :: "RulesEditor \<Rightarrow> RulesEditor" where
  "loadUserRules s = s\<lparr>loadCalls := Suc (loadCalls s)\<rparr>"

definition saveUserRules :: "RulesEditor \<Rightarrow> RulesEditor" where
  "saveUserRules s = s\<lparr>omitRenderEventsCount := 1, readOnly := True\<rparr>"

definition updateUserFilterRules :: "RulesEditor \<Rightarrow> RulesEditor" where
  "updateUserFilterRules s =
     (if omitRenderEventsCount s > 0
      then s\<lparr>omitRenderEventsCount := omitRenderEventsCount s - 1\<rparr>
      else loadUserRules s)"

text \<open>A closure sees a sequence of clicks on its apply button and of update calls.\<close>

datatype editor_event = Save | Update

fun whiteList_event :: "RulesEditor \<Rightarrow> editor_event \<Rightarrow> RulesEditor" where
  "whiteList_event s Save = saveWhiteListDomains s"
| "whiteList_event s Update = updateWhiteListDomains s"

fun userFilter_event :: "RulesEditor \<Rightarrow> editor_event \<Rightarrow> RulesEditor" where
  "userFilter_event s Save = saveUserRules s"
| "userFilter_event s Update = updateUserFilterRules s"

section \<open>The popup that confirms a reset of the statistics\<close>

text \<open>
  \<^verbatim>\<open>_onStatsReset\<close> (lines 1370--1378) uses the timers of the page. A pending timer is its
  id, the time it is due (in milliseconds) and its callback; \<^verbatim>\<open>setTimeout\<close> returns a fresh
  id, which is a positive number, and \<^verbatim>\<open>clearTimeout\<close> removes the timer with the given id,
  if it is still pending. The timers are shared with the rest of the page.
\<close>

datatype timer_callback = HideResetStatsPopup | OtherCallback

type_synonym timer = "nat \<times> nat \<times> timer_callback"

record PageController =
  resetStatsPopup_display :: string
  closePopupTimeoutId :: "nat option"
  pendingTimers :: "timer list"
  nextTimerId :: nat
  now :: nat

definition newPage :: "string \<Rightarrow> PageController" where
  "newPage disp = \<lparr>resetStatsPopup_display = disp, closePopupTimeoutId = None,
                    pendingTimers = [], nextTimerId = 1, now = 0\<rparr>"

definition setTimeout :: "PageController \<Rightarrow> timer_callback \<Rightarrow> nat \<Rightarrow> nat \<times> PageController" where
  "setTimeout s cb delay =
     (nextTimerId s,
      s\<lparr>pendingTimers := pendingTimers s @ [(nextTimerId s, now s + delay, cb)],
        nextTimerId := Suc (nextTimerId s)\<rparr>)"

definition clearTimeout :: "PageController \<Rightarrow> nat \<Rightarrow> PageController" where
  "clearTimeout s i = s\<lparr>pendingTimers := filter (\<lambda>t. fst t \<noteq> i) (pendingTimers s)\<rparr>"

text \<open>
  \<^verbatim>\<open>_onStatsReset\<close>. The test \<^verbatim>\<open>if (this.closePopupTimeoutId)\<close> holds for a number other
  than 0.
\<close>

definition onStatsReset :: "PageController \<Rightarrow> PageController" where
  "onStatsReset s =
     (let s1 = s\<lparr>resetStatsPopup_display := ''block''\<rparr>;
          s2 = (case closePopupTimeoutId s1 of
                  None \<Rightarrow> s1
                | Some i \<Rightarrow> if i \<noteq> 0 then clearTimeout s1 i else s1);
          (i, s3) = setTimeout s2 HideResetStatsPopup 4000
      in s3\<lparr>closePopupTimeoutId := Some i\<rparr>)"

text \<open>The callbacks of the timers, and the passing of one millisecond.\<close>

fun run_callback :: "PageController \<Rightarrow> timer_callback \<Rightarrow> PageController" where
  "run_callback s HideResetStatsPopup = s\<lparr>resetStatsPopup_display := ''none''\<rparr>"
| "run_callback s OtherCallback = s"

definition tick :: "PageController \<Rightarrow> PageController" where
  "tick s =
     (let t = Suc (now s);
          due = filter (\<lambda>x. fst (snd x) \<le> t) (pendingTimers s);
          rest = filter (\<lambda>x. \<not> fst (snd x) \<le> t) (pendingTimers s)
      in foldl run_callback (s\<lparr>now := t, pendingTimers := rest\<rparr>) (map (\<lambda>x. snd (snd x)) due))"

datatype page_event = StatsReset | Tick | OtherSetTimeout nat

fun page_step :: "PageController \<Rightarrow> page_event \<Rightarrow> PageController" where
  "page_step s StatsReset = onStatsReset s"
| "page_step s Tick = tick s"
| "page_step s (OtherSetTimeout delay) = snd (setTimeout s OtherCallback delay)"

definition hideTimers :: "PageController \<Rightarrow> timer list" where
  "hideTimers s = filter (\<lambda>x. snd (snd x) = HideResetStatsPopup) (pendingTimers s)"

text \<open>What holds of the timers in every state the page reaches.\<close>

definition timers_ok :: "PageController \<Rightarrow> bool" where
  "timers_ok s \<longleftrightarrow>
     0 < nextTimerId s \<and>
     distinct (map fst (pendingTimers s)) \<and>
     list_all (\<lambda>x. 0 < fst x \<and> fst x < nextTimerId s \<and>
                 (snd (snd x) = HideResetStatsPopup \<longrightarrow> closePopupTimeoutId s = Some (fst x)))
       (pendingTimers s)"

section \<open>The document\<close>

text \<open>
  The elements of the page are nodes of a store, addressed by natural numbers;
  \<open>next_node\<close> is the first address that is not in use. A node records what the script
  reads and writes: its tag name (in lower case), the chain of its ancestors (nearest
  first, so that \<^verbatim>\<open>parentNode\<close> is the head of the chain), its child nodes in document
  order, its attributes, its class list, \<^verbatim>\<open>style.display\<close>, the \<^verbatim>\<open>checked\<close> state of an input
  and the event listeners added to it. A listener is the closure that the script
  registers, with the nodes it captures.
\<close>

type_synonym node = nat

datatype handler = TogglerClick node | CheckboxChange node node

record element =
  tagName :: string
  ancestors :: "node list"
  childNodes :: "node list"
  attributes :: "string \<rightharpoonup> string"
  classList :: "string list"
  display :: string
  checked :: bool
  listeners :: "(string \<times> handler) list"

record Document =
  elements :: "node \<Rightarrow> element"
  next_node :: node
  location_hash :: string

definition update_element :: "Document \<Rightarrow> node \<Rightarrow> (element \<Rightarrow> element) \<Rightarrow> Document" where
  "update_element d n f = d\<lparr>elements := (elements d)(n := f (elements d n))\<rparr>"

definition getAttribute :: "Document \<Rightarrow> node \<Rightarrow> string \<Rightarrow> string option" where
  "getAttribute d n name = attributes (elements d n) name"

definition setAttribute :: "Document \<Rightarrow> node \<Rightarrow> string \<Rightarrow> string \<Rightarrow> Document" where
  "setAttribute d n name v =
     update_element d n (\<lambda>e. e\<lparr>attributes := (attributes e)(name \<mapsto> v)\<rparr>)"

text \<open>A string-or-null value is truthy when it is a string other than the empty one.\<close>

fun truthy_string :: "string option \<Rightarrow> bool" where
  "truthy_string None = False"
| "truthy_string (Some v) = (v \<noteq> [])"

definition classList_add :: "Document \<Rightarrow> node \<Rightarrow> string \<Rightarrow> Document" where
  "classList_add d n c =
     update_element d n
       (\<lambda>e. if c \<in> set (classList e) then e else e\<lparr>classList := classList e @ [c]\<rparr>)"

definition classList_remove :: "Document \<Rightarrow> node \<Rightarrow> string \<Rightarrow> Document" where
  "classList_remove d n c = update_element d n (\<lambda>e. e\<lparr>classList := removeAll c (classList e)\<rparr>)"

definition set_display :: "Document \<Rightarrow> node \<Rightarrow> string \<Rightarrow> Document" where
  "set_display d n v = update_element d n (\<lambda>e. e\<lparr>display := v\<rparr>)"

definition addEventListener :: "Document \<Rightarrow> node \<Rightarrow> string \<Rightarrow> handler \<Rightarrow> Document" where
  "addEventListener d n ev h = update_element d n (\<lambda>e. e\<lparr>listeners := listeners e @ [(ev, h)]\<rparr>)"

definition createElement :: "Document \<Rightarrow> string \<Rightarrow> node \<times> Document" where
  "createElement d tag =
     (next_node d,
      d\<lparr>elements := (elements d)(next_node d :=
            \<lparr>tagName = tag, ancestors = [], childNodes = [], attributes = Map.empty,
             classList = [], display = [], checked = False, listeners = []\<rparr>),
        next_node := Suc (next_node d)\<rparr>)"

definition parentNode :: "Document \<Rightarrow> node \<Rightarrow> node option" where
  "parentNode d n = (case ancestors (elements d n) of [] \<Rightarrow> None | p # ps \<Rightarrow> Some p)"

fun next_in :: "node \<Rightarrow> node list \<Rightarrow> node option" where
  "next_in n [] = None"
| "next_in n [x] = None"
| "next_in n (x # y # xs) = (if x = n then Some y else next_in n (y # xs))"

definition nextSibling :: "Document \<Rightarrow> node \<Rightarrow> node option" where
  "nextSibling d n =
     (case parentNode d n of None \<Rightarrow> None | Some p \<Rightarrow> next_in n (childNodes (elements d p)))"

fun insert_before :: "node \<Rightarrow> node \<Rightarrow> node list \<Rightarrow> node list option" where
  "insert_before el r [] = None"
| "insert_before el r (x # xs) =
     (if x = r then Some (el # x # xs)
      else (case insert_before el r xs of None \<Rightarrow> None | Some ys \<Rightarrow> Some (x # ys)))"

text \<open>
  \<^verbatim>\<open>parent.insertBefore(el, ref)\<close> for a node \<open>el\<close> that has no parent yet: \<open>el\<close> becomes the
  last child when \<open>ref\<close> is \<^verbatim>\<open>null\<close>, and the child before \<open>ref\<close> otherwise.
\<close>

definition insertBefore :: "Document \<Rightarrow> node \<Rightarrow> node \<Rightarrow> node option \<Rightarrow> error + Document" where
  "insertBefore d parent el ref =
     (case (case ref of None \<Rightarrow> Some (childNodes (elements d parent) @ [el])
            | Some r \<Rightarrow> insert_before el r (childNodes (elements d parent))) of
        None \<Rightarrow> Inl NotFoundError
      | Some cs \<Rightarrow>
          Inr (update_element
                 (update_element d parent (\<lambda>e. e\<lparr>childNodes := cs\<rparr>))
                 el (\<lambda>e. e\<lparr>ancestors := parent # ancestors (elements d parent)\<rparr>)))"

text \<open>\<^verbatim>\<open>el.closest(tag)\<close>: the node itself or its nearest ancestor with the tag name.\<close>

definition closest :: "Document \<Rightarrow> node \<Rightarrow> string \<Rightarrow> node option" where
  "closest d n tag = List.find (\<lambda>a. tagName (elements d a) = tag) (n # ancestors (elements d n))"

section \<open>The checkbox widget \<^verbatim>\<open>CheckboxUtils\<close>\<close>

text \<open>
  \<^verbatim>\<open>onClicked\<close> (lines 85--93), the local function of one decoration; \<open>el\<close> is the toggler
  that the decoration created.
\<close>

definition onClicked :: "Document \<Rightarrow> node \<Rightarrow> bool \<Rightarrow> error + Document" where
  "onClicked d el chk =
     (if chk then
        (let d1 = classList_add d el ''active''
         in case closest d1 el ''li'' of
              None \<Rightarrow> Inl TypeError
            | Some li \<Rightarrow> Inr (classList_add d1 li ''active''))
      else
        (let d1 = classList_remove d el ''active''
         in case closest d1 el ''li'' of
              None \<Rightarrow> Inl TypeError
            | Some li \<Rightarrow> Inr (classList_remove d1 li ''active'')))"

text \<open>The body of the loop of \<^verbatim>\<open>toggleCheckbox\<close> (lines 62--99), for one checkbox.\<close>

definition toggleCheckbox_each :: "Document \<Rightarrow> node \<Rightarrow> error + Document" where
  "toggleCheckbox_each d checkbox =
     (if truthy_string (getAttribute d checkbox ''toggleCheckbox'') then Inr d
      else
        (let (el, d1) = createElement d ''div'';
             d2 = classList_add d1 el ''toggler''
         in case parentNode d2 checkbox of
              None \<Rightarrow> Inl TypeError
            | Some parent \<Rightarrow>
                (case insertBefore d2 parent el (nextSibling d2 checkbox) of
                   Inl e \<Rightarrow> Inl e
                 | Inr d3 \<Rightarrow>
                     (let d4 = addEventListener d3 el ''click'' (TogglerClick checkbox);
                          d5 = addEventListener d4 checkbox ''change'' (CheckboxChange checkbox el);
                          d6 = set_display d5 checkbox ''none''
                      in case onClicked d6 el (checked (elements d6 checkbox)) of
                           Inl e \<Rightarrow> Inl e
                         | Inr d7 \<Rightarrow> Inr (setAttribute d7 checkbox ''toggleCheckbox'' ''true'')))))"

text \<open>\<^verbatim>\<open>toggleCheckbox\<close> (lines 60--100): the loop over the elements, in order.\<close>

fun toggleCheckbox :: "Document \<Rightarrow> node list \<Rightarrow> error + Document" where
  "toggleCheckbox d [] = Inr d"
| "toggleCheckbox d (checkbox # rest) =
     (case toggleCheckbox_each d checkbox of
        Inl e \<Rightarrow> Inl e
      | Inr d' \<Rightarrow> toggleCheckbox d' rest)"

text \<open>The togglers among the children of a node, and the listeners of a node for an event.\<close>

definition togglers :: "Document \<Rightarrow> node \<Rightarrow> node list" where
  "togglers d p = filter (\<lambda>n. ''toggler'' \<in> set (classList (elements d n))) (childNodes (elements d p))"

definition listeners_for :: "Document \<Rightarrow> node \<Rightarrow> string \<Rightarrow> handler list" where
  "listeners_for d n ev = map snd (filter (\<lambda>l. fst l = ev) (listeners (elements d n)))"

text \<open>A checkbox is decorated when the guard of line 64 holds for it.\<close>

definition decorated :: "Document \<Rightarrow> node \<Rightarrow> bool" where
  "decorated d c \<longleftrightarrow> truthy_string (getAttribute d c ''toggleCheckbox'')"

text \<open>
  A list item with a checked checkbox and a label: node 0 is the \<^verbatim>\<open>li\<close>, node 1 the
  \<^verbatim>\<open>input\<close>, node 2 the \<^verbatim>\<open>span\<close> after it.
\<close>

definition item_elements :: "node \<Rightarrow> element" where
  "item_elements n =
     (if n = 0 then
        \<lparr>tagName = ''li'', ancestors = [], childNodes = [1, 2], attributes = Map.empty,
         classList = [], display = [], checked = False, listeners = []\<rparr>
      else if n = 1 then
        \<lparr>tagName = ''input'', ancestors = [0], childNodes = [], attributes = Map.empty,
         classList = [], display = [], checked = True, listeners = []\<rparr>
      else
        \<lparr>tagName = ''span'', ancestors = [0], childNodes = [], attributes = Map.empty,
         classList = [], display = [], checked = False, listeners = []\<rparr>)"

definition item_document :: Document where
  "item_document = \<lparr>elements = item_elements, next_node = 3, location_hash = []\<rparr>"

section \<open>The tab router \<^verbatim>\<open>TopMenu\<close>\<close>

definition GENERAL_SETTINGS :: string where
  "GENERAL_SETTINGS = ''#general-settings''"

definition ANTIBANNER :: string where
  "ANTIBANNER = ''#antibanner''"

definition WHITELIST :: string where
  "WHITELIST = ''#whitelist''"

text \<open>The selector \<^verbatim>\<open>'[data-tab="' + tabId + '"]'\<close>.\<close>

definition dataTabSelector :: "string \<Rightarrow> string" where
  "dataTabSelector tabId = ''[data-tab='' @ [CHR 0x22] @ tabId @ [CHR 0x22] @ '']''"

text \<open>
  The state of the closure: the document, \<^verbatim>\<open>prevTabId\<close> (\<open>None\<close> while it is
  \<^verbatim>\<open>undefined\<close>), whether the value stored in \<^verbatim>\<open>onHashUpdatedCallback\<close> is a function, and
  the calls of that function so far (the argument of each call).

  The selector engine of the browser is a parameter: \<open>qs d sel\<close> is the result of
  \<^verbatim>\<open>document.querySelector(sel)\<close> in the document \<open>d\<close> (an element, \<^verbatim>\<open>null\<close>, or a
  \<^verbatim>\<open>SyntaxError\<close> for a string that is not a selector), and \<open>qsa d sel\<close> the list that
  \<^verbatim>\<open>document.querySelectorAll(sel)\<close> returns for the selector of the navigation buttons.
\<close>

record TopMenu =
  document :: Document
  prevTabId :: "string option"
  onHashUpdatedCallback :: bool
  callbackCalls :: "string list"

type_synonym querySelector = "Document \<Rightarrow> string \<Rightarrow> error + node option"

type_synonym querySelectorAll = "Document \<Rightarrow> string \<Rightarrow> node list"

text \<open>
  Lines 144--155: the tab id and the panel that \<^verbatim>\<open>toggleTab\<close> resolves. \<open>Inr None\<close> is the
  early return of line 149.
\<close>

definition resolveTab :: "querySelector \<Rightarrow> Document \<Rightarrow> error + (string \<times> node option) option" where
  "resolveTab qs d =
     (let tabId = (if location_hash d = [] then GENERAL_SETTINGS else location_hash d)
      in case qs d tabId of
           Inl e \<Rightarrow> Inl e
         | Inr tab \<Rightarrow>
             if prefix ANTIBANNER tabId \<and> tab = None then Inr None
             else if tab = None then
               (case qs d GENERAL_SETTINGS of
                  Inl e \<Rightarrow> Inl e
                | Inr tab' \<Rightarrow> Inr (Some (GENERAL_SETTINGS, tab')))
             else Inr (Some (tabId, tab)))"

text \<open>Lines 159--169: the previous tab loses its highlight and its panel is hidden.\<close>

definition hidePrevTab :: "querySelector \<Rightarrow> node list \<Rightarrow> Document \<Rightarrow> string option \<Rightarrow> error + Document" where
  "hidePrevTab qs antibannerTabs d prev =
     (case prev of
        None \<Rightarrow> Inr d
      | Some p \<Rightarrow>
          if p = [] then Inr d
          else
            (case (if prefix ANTIBANNER p
                   then Inr (fold (\<lambda>el d'. classList_remove d' el ''active'') antibannerTabs d)
                   else (case qs d (dataTabSelector p) of
                           Inl e \<Rightarrow> Inl e
                         | Inr None \<Rightarrow> Inl TypeError
                         | Inr (Some n) \<Rightarrow> Inr (classList_remove d n ''active''))) of
               Inl e \<Rightarrow> Inl e
             | Inr d1 \<Rightarrow>
                 (case qs d1 p of
                    Inl e \<Rightarrow> Inl e
                  | Inr None \<Rightarrow> Inl TypeError
                  | Inr (Some n) \<Rightarrow> Inr (set_display d1 n ''none''))))"

text \<open>Lines 171--177: the navigation button of the new tab is highlighted.\<close>

definition activateNav :: "querySelector \<Rightarrow> node list \<Rightarrow> Document \<Rightarrow> string \<Rightarrow> error + Document" where
  "activateNav qs antibannerTabs d tabId =
     (if prefix ANTIBANNER tabId
      then Inr (fold (\<lambda>el d'. classList_add d' el ''active'') antibannerTabs d)
      else (case qs d (dataTabSelector tabId) of
              Inl e \<Rightarrow> Inl e
            | Inr None \<Rightarrow> Inl TypeError
            | Inr (Some n) \<Rightarrow> Inr (classList_add d n ''active'')))"

text \<open>\<^verbatim>\<open>toggleTab\<close> (lines 142--188).\<close>

definition toggleTab :: "querySelector \<Rightarrow> querySelectorAll \<Rightarrow> TopMenu \<Rightarrow> error + TopMenu" where
  "toggleTab qs qsa s =
     (case resolveTab qs (document s) of
        Inl e \<Rightarrow> Inl e
      | Inr None \<Rightarrow> Inr s
      | Inr (Some (tabId, tab)) \<Rightarrow>
          (let antibannerTabs = qsa (document s) (dataTabSelector ANTIBANNER)
           in case hidePrevTab qs antibannerTabs (document s) (prevTabId s) of
                Inl e \<Rightarrow> Inl e
              | Inr d1 \<Rightarrow>
                  (case activateNav qs antibannerTabs d1 tabId of
                     Inl e \<Rightarrow> Inl e
                   | Inr d2 \<Rightarrow>
                       (case tab of
                          None \<Rightarrow> Inl TypeError
                        | Some t \<Rightarrow>
                            Inr (s\<lparr>document := set_display d2 t ''block'',
                                   callbackCalls :=
                                     (if tabId = WHITELIST \<and> onHashUpdatedCallback s
                                      then callbackCalls s @ [tabId] else callbackCalls s),
                                   prevTabId := Some tabId\<rparr>)))))"

text \<open>The tab id that \<^verbatim>\<open>toggleTab\<close> resolves, when it resolves one.\<close>

definition resolvedTabId :: "querySelector \<Rightarrow> Document \<Rightarrow> string option" where
  "resolvedTabId qs d =
     (case resolveTab qs d of
        Inl e \<Rightarrow> None
      | Inr None \<Rightarrow> None
      | Inr (Some (tabId, tab)) \<Rightarrow> Some tabId)"

text \<open>
  A settings page with two panels and three navigation buttons: node 0 is the panel
  \<^verbatim>\<open>#general-settings\<close> (shown), node 1 the panel \<^verbatim>\<open>#whitelist\<close> (hidden), nodes 2, 3 and 4
  are the buttons with \<^verbatim>\<open>data-tab\<close> equal to \<^verbatim>\<open>#general-settings\<close>, \<^verbatim>\<open>#whitelist\<close> and
  \<^verbatim>\<open>#antibanner\<close>. No filter category has been rendered yet.
\<close>

definition settings_elements :: "node \<Rightarrow> element" where
  "settings_elements n =
     \<lparr>tagName = ''div'', ancestors = [], childNodes = [], attributes = Map.empty,
      classList = (if n = 2 then [''active''] else []),
      display = (if n = 0 then ''block'' else if n = 1 then ''none'' else []),
      checked = False, listeners = []\<rparr>"

definition settings_document :: "string \<Rightarrow> Document" where
  "settings_document h = \<lparr>elements = settings_elements, next_node = 5, location_hash = h\<rparr>"

definition settings_qs :: querySelector where
  "settings_qs d sel =
     (if sel = ''#general-settings'' then Inr (Some 0)
      else if sel = ''#whitelist'' then Inr (Some 1)
      else if sel = dataTabSelector ''#general-settings'' then Inr (Some 2)
      else if sel = dataTabSelector ''#whitelist'' then Inr (Some 3)
      else Inr None)"

text \<open>
  The selector engine of the same page as a browser has it for one more string: the hash
  \<^verbatim>\<open>#antibanner!\<close> is not a selector (an identifier cannot contain \<^verbatim>\<open>!\<close>), and
  \<^verbatim>\<open>querySelector\<close> raises a \<^verbatim>\<open>SyntaxError\<close> for it.
\<close>

definition settings_qs_browser :: querySelector where
  "settings_qs_browser d sel =
     (if sel = ''#antibanner!'' then Inl SyntaxError else settings_qs d sel)"

definition settings_qsa :: querySelectorAll where
  "settings_qsa d sel = (if sel = dataTabSelector ''#antibanner'' then [4] else [])"

definition settings_menu :: "string \<Rightarrow> TopMenu" where
  "settings_menu h =
     \<lparr>document = settings_document h, prevTabId = Some ''#general-settings'',
      onHashUpdatedCallback = True, callbackCalls = []\<rparr>"

section \<open>Properties of the filter metadata cache\<close>

subsection \<open>The index of a list of filters\<close>

lemma lastWithId_Nil: "lastWithId h [] fid = None"
  by (simp add: lastWithId_def)

lemma lastWithId_snoc:
  "lastWithId h (fs @ [a]) fid = (if filterId (h a) = fid then Some a else lastWithId h fs fid)"
  by (simp add: lastWithId_def)

lemma find_append_case:
  "List.find P (xs @ ys) = (case List.find P xs of Some x \<Rightarrow> Some x | None \<Rightarrow> List.find P ys)"
  by (induction xs) auto

lemma lastWithId_Cons:
  "lastWithId h (a # fs) fid =
     (case lastWithId h fs fid of Some b \<Rightarrow> Some b
      | None \<Rightarrow> if filterId (h a) = fid then Some a else None)"
  by (simp add: lastWithId_def find_append_case split: option.splits)

lemma lastWithId_same_ids:
  assumes "\<And>a. a \<in> set fs \<Longrightarrow> filterId (h' a) = filterId (h a)"
  shows "lastWithId h' fs fid = lastWithId h fs fid"
  using assms
  by (induction fs) (simp_all add: lastWithId_Nil lastWithId_Cons)

lemma lastWithId_None: "lastWithId h fs fid = None \<longleftrightarrow> fid \<notin> (\<lambda>a. filterId (h a)) ` set fs"
  by (auto simp: lastWithId_def find_None_iff)

lemma lastWithId_Some_split:
  "lastWithId h fs fid = Some a \<Longrightarrow>
     filterId (h a) = fid \<and> (\<exists>xs ys. fs = xs @ a # ys \<and> (\<forall>b\<in>set ys. filterId (h b) \<noteq> fid))"
proof (induction fs)
  case Nil
  then show ?case by (simp add: lastWithId_Nil)
next
  case (Cons x fs)
  show ?case
  proof (cases "lastWithId h fs fid")
    case None
    with Cons.prems have xa: "x = a" and idx: "filterId (h x) = fid"
      by (auto simp: lastWithId_Cons split: if_splits)
    from None have "\<forall>b\<in>set fs. filterId (h b) \<noteq> fid"
      by (auto simp: lastWithId_None)
    then have "x # fs = [] @ a # fs \<and> (\<forall>b\<in>set fs. filterId (h b) \<noteq> fid)"
      using xa by simp
    then show ?thesis using xa idx by blast
  next
    case (Some b)
    with Cons.prems have "b = a" by (simp add: lastWithId_Cons)
    with Some Cons.IH obtain xs ys where
      "filterId (h a) = fid" "fs = xs @ a # ys" "\<forall>b\<in>set ys. filterId (h b) \<noteq> fid"
      by blast
    then have "x # fs = (x # xs) @ a # ys \<and> (\<forall>b\<in>set ys. filterId (h b) \<noteq> fid)"
      by simp
    then show ?thesis using \<open>filterId (h a) = fid\<close> by blast
  qed
qed

subsection \<open>The loop of \<^verbatim>\<open>initLoadedFilters\<close>\<close>

lemma initLoop_index:
  "fst (initLoop h fs (m, l)) fid =
     (case lastWithId h fs fid of None \<Rightarrow> m fid | Some a \<Rightarrow> Some a)"
  by (induction fs arbitrary: m l) (auto simp: lastWithId_Nil lastWithId_Cons split: option.splits)

lemma initLoop_fold:
  "0 \<le> l \<Longrightarrow>
     snd (initLoop h fs (m, l)) = fold max (List.map_filter (\<lambda>a. Filter.lastUpdateTime (h a)) fs) l"
proof (induction fs arbitrary: m l)
  case Nil
  then show ?case by simp
next
  case (Cons a fs)
  show ?case
  proof (cases "Filter.lastUpdateTime (h a)")
    case None
    then show ?thesis using Cons by simp
  next
    case (Some t)
    have eq: "(if t \<noteq> 0 \<and> t > l then t else l) = max t l"
      using Cons.prems by (auto simp: max_def)
    have "0 \<le> max t l" using Cons.prems by simp
    from Cons.IH[OF this] show ?thesis
      using Some by (simp add: eq)
  qed
qed

lemma initLoop_time:
  "snd (initLoop h fs (m, 0)) = Max (set (0 # List.map_filter (\<lambda>a. Filter.lastUpdateTime (h a)) fs))"
  by (simp only: Max.set_eq_fold initLoop_fold[OF order_refl])

lemma fold_max_ge: "(l::int) \<le> fold max xs l"
proof (induction xs arbitrary: l)
  case Nil
  show ?case by simp
next
  case (Cons x xs)
  have "l \<le> max x l" by simp
  also have "\<dots> \<le> fold max xs (max x l)" by (rule Cons.IH)
  finally show ?case by simp
qed

lemma initLoop_nonneg: "0 \<le> l \<Longrightarrow> l \<le> snd (initLoop h fs (m, l))"
  by (simp add: initLoop_fold fold_max_ge)

lemma initLoadedFilters_fields:
  "filtersById (initLoadedFilters c fs cats) = fst (initLoop (heap c) fs (Map.empty, 0))"
  "loadedFiltersInfo.lastUpdateTime (initLoadedFilters c fs cats) = snd (initLoop (heap c) fs (Map.empty, 0))"
  "heap (initLoadedFilters c fs cats) = heap c"
  "filters (initLoadedFilters c fs cats) = fs"
  "categories (initLoadedFilters c fs cats) = cats"
  by (simp_all add: initLoadedFilters_def split: prod.splits)

lemma initLoadedFilters_index:
  "filtersById (initLoadedFilters c fs cats) fid = lastWithId (heap c) fs fid"
  by (simp add: initLoadedFilters_fields initLoop_index split: option.splits)

subsection \<open>Consistency of the index\<close>

lemma consistent_initial: "consistent (initialInfo h)"
  by (simp add: consistent_def initialInfo_def lastWithId_Nil)

lemma consistent_init: "consistent (initLoadedFilters c fs cats)"
  by (simp add: consistent_def initLoadedFilters_index initLoadedFilters_fields(3,4))

lemma consistent_update:
  assumes "consistent c"
  shows "consistent (updateEnabled c f en)"
proof (cases "filtersById c (filterId (heap c f))")
  case None
  then show ?thesis using assms
    by (simp add: consistent_def updateEnabled_def lastWithId_snoc)
next
  case (Some info)
  have "lastWithId ((heap c)(info := (heap c info)\<lparr>enabled := en\<rparr>)) (filters c) fid
        = lastWithId (heap c) (filters c) fid" for fid
    by (rule lastWithId_same_ids) simp
  then show ?thesis using assms Some
    by (simp add: consistent_def updateEnabled_def)
qed

lemma consistent_setText:
  "consistent c \<Longrightarrow> consistent (fst (setLastUpdatedTimeText fmt c t))"
  by (simp add: consistent_def setLastUpdatedTimeText_def Let_def split: option.splits)

lemma consistent_apply: "consistent c \<Longrightarrow> consistent (apply_cache_op fmt c x)"
  by (cases x) (simp_all add: consistent_init consistent_update consistent_setText)

lemma consistent_run: "consistent c \<Longrightarrow> consistent (run_cache_ops fmt c ops)"
  by (induction ops arbitrary: c) (simp_all add: consistent_apply)

subsection \<open>The time of the last update\<close>

lemma setText_mono:
  "loadedFiltersInfo.lastUpdateTime c
     \<le> loadedFiltersInfo.lastUpdateTime (fst (setLastUpdatedTimeText fmt c t))"
  by (simp add: setLastUpdatedTimeText_def Let_def split: option.splits)

lemma updateEnabled_time:
  "loadedFiltersInfo.lastUpdateTime (updateEnabled c f en) = loadedFiltersInfo.lastUpdateTime c"
  by (simp add: updateEnabled_def split: option.splits)

lemma run_no_init_mono:
  "\<forall>x\<in>set ops. \<not> is_init x \<Longrightarrow>
     loadedFiltersInfo.lastUpdateTime c \<le> loadedFiltersInfo.lastUpdateTime (run_cache_ops fmt c ops)"
proof (induction ops arbitrary: c)
  case Nil
  show ?case by simp
next
  case (Cons x ops)
  have step: "loadedFiltersInfo.lastUpdateTime c
                \<le> loadedFiltersInfo.lastUpdateTime (apply_cache_op fmt c x)"
    using Cons.prems by (cases x) (simp_all add: setText_mono updateEnabled_time)
  have "loadedFiltersInfo.lastUpdateTime (apply_cache_op fmt c x)
          \<le> loadedFiltersInfo.lastUpdateTime (run_cache_ops fmt (apply_cache_op fmt c x) ops)"
    using Cons.prems by (intro Cons.IH) simp
  with step show ?case by simp
qed

subsection \<open>Claims about the cache\<close>

text \<open>
  C1. The specification states that after \<^verbatim>\<open>updateEnabled(f, true)\<close> the call \<^verbatim>\<open>isEnabled(f.filterId)\<close> returns
  true, and after \<^verbatim>\<open>updateEnabled(f, false)\<close> it returns false, whether or not the id of \<open>f\<close>
  was indexed before. On the empty cache, with the object \<^verbatim>\<open>{filterId: 2, groupId: 10}\<close>
  (no \<^verbatim>\<open>enabled\<close> property), \<^verbatim>\<open>updateEnabled(f, true)\<close> appends \<open>f\<close> as it is and
  \<^verbatim>\<open>isEnabled(2)\<close> returns \<^verbatim>\<open>undefined\<close>.
\<close>

theorem updateEnabled_unindexed_counterexample:
  "filterId (heap2 0) = 2 \<and>
   isEnabled (updateEnabled (initialInfo heap2) 0 (Some True)) 2 = Inr None \<and>
   isEnabled (updateEnabled (initialInfo heap2) 0 (Some True)) 2 \<noteq> Inr (Some True)"
  by (simp add: isEnabled_def updateEnabled_def initialInfo_def heap2_def filter2_def)

text \<open>
  C1, as the code has it. After \<^verbatim>\<open>updateEnabled(f, en)\<close>, \<^verbatim>\<open>isEnabled(f.filterId)\<close> does not
  raise; it returns \<open>en\<close> when the id of \<open>f\<close> was indexed before the call, and the
  \<^verbatim>\<open>enabled\<close> property of \<open>f\<close> itself when \<open>f\<close> was appended as a new filter. Hence it
  returns \<open>en\<close> in both cases when \<open>en\<close> is the \<^verbatim>\<open>enabled\<close> property of \<open>f\<close>, which is how
  \<^verbatim>\<open>onFilterStateChanged\<close> calls it.
\<close>

theorem updateEnabled_isEnabled:
  "isEnabled (updateEnabled c f en) (filterId (heap c f)) =
     Inr (if filtersById c (filterId (heap c f)) = None then enabled (heap c f) else en)
   \<and> (enabled (heap c f) = en \<longrightarrow>
        isEnabled (updateEnabled c f en) (filterId (heap c f)) = Inr en)"
  by (cases "filtersById c (filterId (heap c f))")
     (simp_all add: isEnabled_def updateEnabled_def)

theorem updateEnabled_isEnabled_witness:
  "enabled (heap (initialInfo heap2) 0) = None \<and>
   isEnabled (updateEnabled (initialInfo heap2) 0 None) 2 = Inr None \<and>
   filtersById (updateEnabled (initialInfo heap2) 0 None) 2 = Some 0 \<and>
   isEnabled (updateEnabled (updateEnabled (initialInfo heap2) 0 None) 0 (Some True)) 2
     = Inr (Some True) \<and>
   isEnabled (updateEnabled (updateEnabled (initialInfo heap2) 0 None) 0 (Some False)) 2
     = Inr (Some False)"
proof -
  let ?c0 = "initialInfo heap2"
  let ?c1 = "updateEnabled ?c0 0 None"
  have id0: "filterId (heap ?c0 0) = 2" and en0: "enabled (heap ?c0 0) = None"
    by (simp_all add: initialInfo_def heap2_def filter2_def)
  have id1: "filterId (heap ?c1 0) = 2" and ix1: "filtersById ?c1 2 = Some 0"
    by (simp_all add: updateEnabled_def initialInfo_def heap2_def filter2_def)
  from updateEnabled_isEnabled[of ?c0 0 None] id0 en0
  have a: "isEnabled ?c1 2 = Inr None" by simp
  from updateEnabled_isEnabled[of ?c1 0 "Some True"] id1 ix1
  have b: "isEnabled (updateEnabled ?c1 0 (Some True)) 2 = Inr (Some True)" by simp
  from updateEnabled_isEnabled[of ?c1 0 "Some False"] id1 ix1
  have c: "isEnabled (updateEnabled ?c1 0 (Some False)) 2 = Inr (Some False)" by simp
  from en0 a ix1 b c show ?thesis by simp
qed

text \<open>
  C2. The specification states that after \<^verbatim>\<open>initLoadedFilters\<close> the cache's \<^verbatim>\<open>lastUpdateTime\<close> is the maximum
  of the filters' update timestamps, and after
  \<^verbatim>\<open>initLoadedFilters([{filterId:1, groupId:10, enabled:true, timeUpdated:100}], [{groupId:10}])\<close>
  \<^verbatim>\<open>isEnabled(1)\<close> is true and \<^verbatim>\<open>lastUpdateTime\<close> is 100. The loop reads the property
  \<^verbatim>\<open>lastUpdateTime\<close> of a filter, not \<^verbatim>\<open>timeUpdated\<close>: on this input the result is 0.
\<close>

theorem initLoadedFilters_timeUpdated_counterexample:
  "isEnabled (initLoadedFilters (initialInfo heap1_timeUpdated) [0]
                [\<lparr>categoryGroupId = 10, groupName = []\<rparr>]) 1 = Inr (Some True) \<and>
   loadedFiltersInfo.lastUpdateTime
     (initLoadedFilters (initialInfo heap1_timeUpdated) [0]
        [\<lparr>categoryGroupId = 10, groupName = []\<rparr>]) = 0 \<and>
   loadedFiltersInfo.lastUpdateTime
     (initLoadedFilters (initialInfo heap1_timeUpdated) [0]
        [\<lparr>categoryGroupId = 10, groupName = []\<rparr>]) \<noteq> 100"
  by (simp add: isEnabled_def initLoadedFilters_def initialInfo_def heap1_timeUpdated_def
      filter1_def)

text \<open>
  C2, as the code has it. After \<^verbatim>\<open>initLoadedFilters(filters, categories)\<close> the cache's
  \<^verbatim>\<open>lastUpdateTime\<close> is the maximum of 0 and the \<^verbatim>\<open>lastUpdateTime\<close> properties of the filters
  of that call that have one (so a missing, zero or negative property counts as absent and
  the result is 0 when no filter has a positive one). For a single filter
  \<^verbatim>\<open>{filterId:1, groupId:10, enabled:true, lastUpdateTime:100}\<close>, \<^verbatim>\<open>isEnabled(1)\<close> is true and
  \<^verbatim>\<open>lastUpdateTime\<close> is 100, whatever its \<^verbatim>\<open>timeUpdated\<close>.
\<close>

theorem initLoadedFilters_lastUpdateTime:
  "loadedFiltersInfo.lastUpdateTime (initLoadedFilters c fs cats)
     = Max (set (0 # List.map_filter (\<lambda>a. Filter.lastUpdateTime (heap c a)) fs))
   \<and> (heap c a = filter1 tu (Some 100) \<longrightarrow>
        isEnabled (initLoadedFilters c [a] cats) 1 = Inr (Some True) \<and>
        loadedFiltersInfo.lastUpdateTime (initLoadedFilters c [a] cats) = 100)"
proof -
  have "loadedFiltersInfo.lastUpdateTime (initLoadedFilters c fs cats)
          = Max (set (0 # List.map_filter (\<lambda>a. Filter.lastUpdateTime (heap c a)) fs))"
    by (simp only: initLoadedFilters_fields initLoop_time)
  moreover have "isEnabled (initLoadedFilters c [a] cats) 1 = Inr (Some True) \<and>
        loadedFiltersInfo.lastUpdateTime (initLoadedFilters c [a] cats) = 100"
    if "heap c a = filter1 tu (Some 100)"
    using that by (simp add: isEnabled_def initLoadedFilters_def filter1_def)
  ultimately show ?thesis by blast
qed

theorem initLoadedFilters_lastUpdateTime_witness:
  "heap (initialInfo heap1_lastUpdateTime) 0 = filter1 None (Some 100) \<and>
   isEnabled (initLoadedFilters (initialInfo heap1_lastUpdateTime) [0] []) 1 = Inr (Some True) \<and>
   loadedFiltersInfo.lastUpdateTime (initLoadedFilters (initialInfo heap1_lastUpdateTime) [0] [])
     = 100 \<and>
   loadedFiltersInfo.lastUpdateTime (initLoadedFilters (initialInfo heap1_lastUpdateTime) [0, 1] [])
     = Max {0, 100}"
proof -
  have h: "heap (initialInfo heap1_lastUpdateTime) 0 = filter1 None (Some 100)"
    by (simp add: initialInfo_def heap1_lastUpdateTime_def)
  have m: "List.map_filter (\<lambda>a. Filter.lastUpdateTime (heap (initialInfo heap1_lastUpdateTime) a))
             [0, 1] = [100, 100]"
    by (simp add: initialInfo_def heap1_lastUpdateTime_def filter1_def)
  from initLoadedFilters_lastUpdateTime[of "initialInfo heap1_lastUpdateTime" "[0, 1]" "[]" 0 None]
    h m
  show ?thesis by simp
qed

text \<open>
  C3. The specification states that over every sequence of cache operations the cache's
  \<^verbatim>\<open>lastUpdateTime\<close> never decreases. \<^verbatim>\<open>initLoadedFilters\<close> starts again from 0: a call with one
  filter updated at time 100, followed by a call with no filter, takes the time from 100
  back to 0.
\<close>

theorem lastUpdateTime_decreases_counterexample:
  "loadedFiltersInfo.lastUpdateTime (initLoadedFilters (initialInfo heap1_lastUpdateTime) [0] [])
     = 100 \<and>
   loadedFiltersInfo.lastUpdateTime
     (initLoadedFilters (initLoadedFilters (initialInfo heap1_lastUpdateTime) [0] []) [] []) = 0 \<and>
   \<not> loadedFiltersInfo.lastUpdateTime (initLoadedFilters (initialInfo heap1_lastUpdateTime) [0] [])
       \<le> loadedFiltersInfo.lastUpdateTime
           (initLoadedFilters (initLoadedFilters (initialInfo heap1_lastUpdateTime) [0] []) [] [])"
  by (simp add: initLoadedFilters_def initialInfo_def heap1_lastUpdateTime_def filter1_def)

text \<open>
  C3, as the code has it. Over every sequence of \<^verbatim>\<open>updateEnabled\<close> and
  \<^verbatim>\<open>setLastUpdatedTimeText\<close> calls the cache's \<^verbatim>\<open>lastUpdateTime\<close> never decreases. A call of
  \<^verbatim>\<open>initLoadedFilters\<close> recomputes it from the filters of that call alone: the new value
  is at least 0 and does not depend on the value before the call.
\<close>

theorem lastUpdateTime_monotone_without_init:
  "((\<forall>x\<in>set ops. \<not> is_init x) \<longrightarrow>
      loadedFiltersInfo.lastUpdateTime c
        \<le> loadedFiltersInfo.lastUpdateTime (run_cache_ops fmt c ops))
   \<and> 0 \<le> loadedFiltersInfo.lastUpdateTime (initLoadedFilters c fs cats)
   \<and> loadedFiltersInfo.lastUpdateTime
       (initLoadedFilters (c\<lparr>loadedFiltersInfo.lastUpdateTime := t\<rparr>) fs cats)
     = loadedFiltersInfo.lastUpdateTime (initLoadedFilters c fs cats)"
proof -
  have "0 \<le> loadedFiltersInfo.lastUpdateTime (initLoadedFilters c fs cats)"
    using initLoop_nonneg[of 0 "heap c" fs Map.empty] by (simp add: initLoadedFilters_fields)
  moreover have "loadedFiltersInfo.lastUpdateTime
       (initLoadedFilters (c\<lparr>loadedFiltersInfo.lastUpdateTime := t\<rparr>) fs cats)
     = loadedFiltersInfo.lastUpdateTime (initLoadedFilters c fs cats)"
    by (simp add: initLoadedFilters_fields)
  ultimately show ?thesis using run_no_init_mono[of ops c fmt] by blast
qed

theorem lastUpdateTime_monotone_without_init_witness:
  "\<not> is_init (SetLastUpdatedTimeText (Some 7)) \<and> \<not> is_init (UpdateEnabled 0 (Some True)) \<and>
   \<not> is_init (SetLastUpdatedTimeText (Some 3)) \<and> \<not> is_init (SetLastUpdatedTimeText None) \<and>
   loadedFiltersInfo.lastUpdateTime (initialInfo heap2)
     \<le> loadedFiltersInfo.lastUpdateTime
         (run_cache_ops (\<lambda>t. []) (initialInfo heap2)
            [SetLastUpdatedTimeText (Some 7), UpdateEnabled 0 (Some True),
             SetLastUpdatedTimeText (Some 3), SetLastUpdatedTimeText None]) \<and>
   loadedFiltersInfo.lastUpdateTime
         (run_cache_ops (\<lambda>t. []) (initialInfo heap2)
            [SetLastUpdatedTimeText (Some 7), UpdateEnabled 0 (Some True),
             SetLastUpdatedTimeText (Some 3), SetLastUpdatedTimeText None]) = 7"
proof -
  let ?ops = "[SetLastUpdatedTimeText (Some 7), UpdateEnabled 0 (Some True),
               SetLastUpdatedTimeText (Some 3), SetLastUpdatedTimeText None]"
  have h: "\<forall>x\<in>set ?ops. \<not> is_init x" by simp
  have v: "loadedFiltersInfo.lastUpdateTime (run_cache_ops (\<lambda>t. []) (initialInfo heap2) ?ops) = 7"
    by (simp add: setLastUpdatedTimeText_def updateEnabled_def initialInfo_def Let_def)
  from lastUpdateTime_monotone_without_init[of ?ops "initialInfo heap2" "\<lambda>t. []"] h
  have "loadedFiltersInfo.lastUpdateTime (initialInfo heap2)
          \<le> loadedFiltersInfo.lastUpdateTime (run_cache_ops (\<lambda>t. []) (initialInfo heap2) ?ops)"
    by blast
  with v show ?thesis by simp
qed

text \<open>
  C4. For a filter id that has no entry in \<^verbatim>\<open>filtersById\<close>, \<^verbatim>\<open>isEnabled\<close> returns a falsy
  value and does not raise; for an indexed id it returns the \<^verbatim>\<open>enabled\<close> property of the
  indexed filter object.
\<close>

theorem isEnabled_unindexed_falsy:
  "(filtersById c fid = None \<longrightarrow>
      (\<exists>v. isEnabled c fid = Inr v \<and> \<not> truthy_bool v))
   \<and> (\<forall>a. filtersById c fid = Some a \<longrightarrow> isEnabled c fid = Inr (enabled (heap c a)))"
  by (simp add: isEnabled_def)

theorem isEnabled_unindexed_falsy_witness:
  "filtersById (initialInfo heap1_lastUpdateTime) 5 = None \<and>
   filtersById (initLoadedFilters (initialInfo heap1_lastUpdateTime) [3] []) 1 = Some 3 \<and>
   (\<exists>v. isEnabled (initialInfo heap1_lastUpdateTime) 5 = Inr v \<and> \<not> truthy_bool v) \<and>
   isEnabled (initLoadedFilters (initialInfo heap1_lastUpdateTime) [3] []) 1 = Inr (Some True)"
proof -
  let ?c0 = "initialInfo heap1_lastUpdateTime"
  let ?c1 = "initLoadedFilters ?c0 [3] []"
  have a: "filtersById ?c0 5 = None" by (simp add: initialInfo_def)
  have b: "filtersById ?c1 1 = Some 3"
    by (simp add: initLoadedFilters_def initialInfo_def heap1_lastUpdateTime_def filter1_def)
  have e: "enabled (heap ?c1 3) = Some True"
    by (simp add: initLoadedFilters_def initialInfo_def heap1_lastUpdateTime_def filter1_def)
  from isEnabled_unindexed_falsy[of ?c0 5] a
  have c: "\<exists>v. isEnabled ?c0 5 = Inr v \<and> \<not> truthy_bool v" by blast
  from isEnabled_unindexed_falsy[of ?c1 1] b e
  have d: "isEnabled ?c1 1 = Inr (Some True)" by simp
  from a b c d show ?thesis by blast
qed

text \<open>
  C9. The index is consistent with the list in the initial cache and after
  \<^verbatim>\<open>initLoadedFilters\<close>; \<^verbatim>\<open>updateEnabled\<close> (and every sequence of cache operations) preserves
  consistency. In a consistent cache the ids that have an entry are exactly the ids of the
  filters of the list, and the entry of an id is a reference of the list, to an object
  with that id, after which no object of the list has that id.
\<close>

theorem filtersById_consistent:
  "consistent (initialInfo h)
   \<and> consistent (initLoadedFilters c fs cats)
   \<and> (consistent c \<longrightarrow> consistent (updateEnabled c f en))
   \<and> (consistent c \<longrightarrow> consistent (run_cache_ops fmt c ops))
   \<and> (consistent c \<longrightarrow>
        dom (filtersById c) = (\<lambda>a. filterId (heap c a)) ` set (filters c)
        \<and> (\<forall>fid a. filtersById c fid = Some a \<longrightarrow>
              a \<in> set (filters c) \<and> filterId (heap c a) = fid
              \<and> (\<exists>xs ys. filters c = xs @ a # ys
                    \<and> (\<forall>b\<in>set ys. filterId (heap c b) \<noteq> fid))))"
proof -
  have dom_eq: "dom (filtersById c) = (\<lambda>a. filterId (heap c a)) ` set (filters c)"
    if "consistent c"
  proof -
    have "fid \<in> dom (filtersById c) \<longleftrightarrow> fid \<in> (\<lambda>a. filterId (heap c a)) ` set (filters c)" for fid
      using that lastWithId_None[of "heap c" "filters c" fid]
      by (simp add: consistent_def domIff)
    then show ?thesis by blast
  qed
  have entry: "a \<in> set (filters c) \<and> filterId (heap c a) = fid
              \<and> (\<exists>xs ys. filters c = xs @ a # ys
                    \<and> (\<forall>b\<in>set ys. filterId (heap c b) \<noteq> fid))"
    if "consistent c" "filtersById c fid = Some a" for fid a
  proof -
    from that have "lastWithId (heap c) (filters c) fid = Some a"
      by (simp add: consistent_def)
    from lastWithId_Some_split[OF this] show ?thesis by auto
  qed
  show ?thesis
  proof (intro conjI impI allI)
    show "consistent (initialInfo h)" by (rule consistent_initial)
    show "consistent (initLoadedFilters c fs cats)" by (rule consistent_init)
    show "consistent (updateEnabled c f en)" if "consistent c"
      using that by (rule consistent_update)
    show "consistent (run_cache_ops fmt c ops)" if "consistent c"
      using that by (rule consistent_run)
    show "dom (filtersById c) = (\<lambda>a. filterId (heap c a)) ` set (filters c)" if "consistent c"
      using that by (rule dom_eq)
    show "a \<in> set (filters c)" if "consistent c" "filtersById c fid = Some a" for fid a
      using entry[OF that] by simp
    show "filterId (heap c a) = fid" if "consistent c" "filtersById c fid = Some a" for fid a
      using entry[OF that] by simp
    show "\<exists>xs ys. filters c = xs @ a # ys \<and> (\<forall>b\<in>set ys. filterId (heap c b) \<noteq> fid)"
      if "consistent c" "filtersById c fid = Some a" for fid a
      using entry[OF that] by simp
  qed
qed

theorem filtersById_consistent_witness:
  "consistent (initialInfo heap2) \<and>
   consistent (updateEnabled (initialInfo heap2) 0 (Some True)) \<and>
   filters (updateEnabled (initialInfo heap2) 0 (Some True)) = [0] \<and>
   filtersById (updateEnabled (initialInfo heap2) 0 (Some True)) 2 = Some 0 \<and>
   dom (filtersById (updateEnabled (initialInfo heap2) 0 (Some True))) = {2}"
proof -
  let ?c0 = "initialInfo heap2"
  let ?c1 = "updateEnabled ?c0 0 (Some True)"
  have c0: "consistent ?c0"
    by (simp add: consistent_def initialInfo_def lastWithId_def)
  note T0 = filtersById_consistent[of heap2 ?c0 "[]" "[]" 0 "Some True" "\<lambda>t. []" "[]"]
  from T0[THEN conjunct2, THEN conjunct2, THEN conjunct1] c0
  have c1: "consistent ?c1" by (rule mp)
  have f: "filters ?c1 = [0]" and i: "filtersById ?c1 2 = Some 0"
    and h: "heap ?c1 = heap2"
    by (simp_all add: updateEnabled_def initialInfo_def heap2_def filter2_def)
  note T1 = filtersById_consistent[of heap2 ?c1 "[]" "[]" 0 "Some True" "\<lambda>t. []" "[]"]
  from T1[THEN conjunct2, THEN conjunct2, THEN conjunct2, THEN conjunct2] c1
  have "dom (filtersById ?c1) = (\<lambda>a. filterId (heap ?c1 a)) ` set (filters ?c1)
        \<and> (\<forall>fid a. filtersById ?c1 fid = Some a \<longrightarrow>
              a \<in> set (filters ?c1) \<and> filterId (heap ?c1 a) = fid
              \<and> (\<exists>xs ys. filters ?c1 = xs @ a # ys
                    \<and> (\<forall>b\<in>set ys. filterId (heap ?c1 b) \<noteq> fid)))" by (rule mp)
  then have "dom (filtersById ?c1) = (\<lambda>a. filterId (heap ?c1 a)) ` set (filters ?c1)"
    by (rule conjunct1)
  then have d: "dom (filtersById ?c1) = {2}"
    by (simp only: f h) (simp add: heap2_def filter2_def)
  from c0 c1 f i d show ?thesis by (intro conjI)
qed

section \<open>Properties of the editors\<close>

lemma whiteList_omit_range:
  "omitRenderEventsCount s \<in> {0, 1} \<Longrightarrow> omitRenderEventsCount (whiteList_event s e) \<in> {0, 1}"
  by (cases e)
     (auto simp: saveWhiteListDomains_def updateWhiteListDomains_def loadWhiteListDomains_def)

lemma userFilter_omit_range:
  "omitRenderEventsCount s \<in> {0, 1} \<Longrightarrow> omitRenderEventsCount (userFilter_event s e) \<in> {0, 1}"
  by (cases e)
     (auto simp: saveUserRules_def updateUserFilterRules_def loadUserRules_def)

lemma whiteList_run_range:
  "omitRenderEventsCount s \<in> {0, 1} \<Longrightarrow>
     omitRenderEventsCount (foldl whiteList_event s evs) \<in> {0, 1}"
proof (induction evs arbitrary: s)
  case Nil
  then show ?case by simp
next
  case (Cons e evs)
  from Cons.prems have "omitRenderEventsCount (whiteList_event s e) \<in> {0, 1}"
    by (rule whiteList_omit_range)
  then show ?case using Cons.IH by simp
qed

lemma userFilter_run_range:
  "omitRenderEventsCount s \<in> {0, 1} \<Longrightarrow>
     omitRenderEventsCount (foldl userFilter_event s evs) \<in> {0, 1}"
proof (induction evs arbitrary: s)
  case Nil
  then show ?case by simp
next
  case (Cons e evs)
  from Cons.prems have "omitRenderEventsCount (userFilter_event s e) \<in> {0, 1}"
    by (rule userFilter_omit_range)
  then show ?case using Cons.IH by simp
qed

lemma whiteList_reloads:
  "omitRenderEventsCount s = 0 \<Longrightarrow>
     (updateWhiteListDomains ^^ n) s = s\<lparr>loadCalls := loadCalls s + n\<rparr>"
  by (induction n) (simp_all add: updateWhiteListDomains_def loadWhiteListDomains_def)

lemma userFilter_reloads:
  "omitRenderEventsCount s = 0 \<Longrightarrow>
     (updateUserFilterRules ^^ n) s = s\<lparr>loadCalls := loadCalls s + n\<rparr>"
  by (induction n) (simp_all add: updateUserFilterRules_def loadUserRules_def)

text \<open>
  C10. After a save, the next update is suppressed: it takes the counter from 1 to 0 and
  does not call the load function. Each of the \<open>n\<close> updates that follow calls the load
  function once. Over every sequence of saves and updates of a new closure the counter is
  never negative (it is 0 or 1).
\<close>

theorem update_omitted_once_after_save:
  "updateWhiteListDomains (saveWhiteListDomains s)
     = s\<lparr>omitRenderEventsCount := 0, readOnly := True\<rparr>
   \<and> (updateWhiteListDomains ^^ n) (updateWhiteListDomains (saveWhiteListDomains s))
     = s\<lparr>omitRenderEventsCount := 0, readOnly := True, loadCalls := loadCalls s + n\<rparr>
   \<and> updateUserFilterRules (saveUserRules s)
     = s\<lparr>omitRenderEventsCount := 0, readOnly := True\<rparr>
   \<and> (updateUserFilterRules ^^ n) (updateUserFilterRules (saveUserRules s))
     = s\<lparr>omitRenderEventsCount := 0, readOnly := True, loadCalls := loadCalls s + n\<rparr>
   \<and> 0 \<le> omitRenderEventsCount (foldl whiteList_event newRulesEditor evs)
   \<and> 0 \<le> omitRenderEventsCount (foldl userFilter_event newRulesEditor evs)"
proof -
  have w1: "updateWhiteListDomains (saveWhiteListDomains s)
              = s\<lparr>omitRenderEventsCount := 0, readOnly := True\<rparr>"
    by (simp add: updateWhiteListDomains_def saveWhiteListDomains_def)
  have w2: "(updateWhiteListDomains ^^ n) (updateWhiteListDomains (saveWhiteListDomains s))
              = s\<lparr>omitRenderEventsCount := 0, readOnly := True, loadCalls := loadCalls s + n\<rparr>"
    by (simp add: w1 whiteList_reloads)
  have u1: "updateUserFilterRules (saveUserRules s)
              = s\<lparr>omitRenderEventsCount := 0, readOnly := True\<rparr>"
    by (simp add: updateUserFilterRules_def saveUserRules_def)
  have u2: "(updateUserFilterRules ^^ n) (updateUserFilterRules (saveUserRules s))
              = s\<lparr>omitRenderEventsCount := 0, readOnly := True, loadCalls := loadCalls s + n\<rparr>"
    by (simp add: u1 userFilter_reloads)
  have "omitRenderEventsCount (foldl whiteList_event newRulesEditor evs) \<in> {0, 1}"
    by (rule whiteList_run_range) (simp add: newRulesEditor_def)
  then have w3: "0 \<le> omitRenderEventsCount (foldl whiteList_event newRulesEditor evs)"
    by auto
  have "omitRenderEventsCount (foldl userFilter_event newRulesEditor evs) \<in> {0, 1}"
    by (rule userFilter_run_range) (simp add: newRulesEditor_def)
  then have u3: "0 \<le> omitRenderEventsCount (foldl userFilter_event newRulesEditor evs)"
    by auto
  from w1 w2 u1 u2 w3 u3 show ?thesis by (intro conjI)
qed

section \<open>Properties of the timer of the popup\<close>

lemma filter_at_most_one:
  "distinct (map fst xs) \<Longrightarrow> list_all (\<lambda>x. P x \<longrightarrow> fst x = i) xs \<Longrightarrow> length (filter P xs) \<le> 1"
proof (induction xs)
  case Nil
  show ?case by simp
next
  case (Cons x xs)
  show ?case
  proof (cases "P x")
    case False
    then show ?thesis using Cons by simp
  next
    case True
    with Cons.prems have xi: "fst x = i" by simp
    have "filter P xs = []"
    proof (rule ccontr)
      assume "filter P xs \<noteq> []"
      then obtain y where y: "y \<in> set xs" "P y"
        by (auto simp: filter_empty_conv)
      with Cons.prems have "fst y = i" by (auto simp: list_all_iff)
      with y xi Cons.prems(1) show False by (auto simp: image_iff)
    qed
    then show ?thesis using True by simp
  qed
qed

lemma hideTimers_at_most_one:
  assumes "timers_ok s"
  shows "length (hideTimers s) \<le> 1"
proof (cases "closePopupTimeoutId s")
  case None
  with assms have "hideTimers s = []"
    by (auto simp: timers_ok_def hideTimers_def list_all_iff filter_empty_conv)
  then show ?thesis by simp
next
  case (Some i)
  with assms have "distinct (map fst (pendingTimers s))"
    and "list_all (\<lambda>x. snd (snd x) = HideResetStatsPopup \<longrightarrow> fst x = i) (pendingTimers s)"
    by (auto simp: timers_ok_def list_all_iff)
  then show ?thesis unfolding hideTimers_def by (rule filter_at_most_one)
qed

lemma timers_ok_new: "timers_ok (newPage disp)"
  by (simp add: timers_ok_def newPage_def)

lemma onStatsReset_hideTimers:
  assumes "timers_ok s"
  shows "hideTimers (onStatsReset s) = [(nextTimerId s, now s + 4000, HideResetStatsPopup)]"
proof (cases "closePopupTimeoutId s")
  case None
  with assms have "filter (\<lambda>x. snd (snd x) = HideResetStatsPopup) (pendingTimers s) = []"
    by (auto simp: timers_ok_def list_all_iff filter_empty_conv)
  then show ?thesis using None
    by (simp add: onStatsReset_def setTimeout_def hideTimers_def Let_def)
next
  case (Some i)
  from assms Some have all: "\<forall>x\<in>set (pendingTimers s).
      0 < fst x \<and> (snd (snd x) = HideResetStatsPopup \<longrightarrow> fst x = i)"
    by (auto simp: timers_ok_def list_all_iff)
  show ?thesis
  proof (cases "i = 0")
    case True
    with all have "filter (\<lambda>x. snd (snd x) = HideResetStatsPopup) (pendingTimers s) = []"
      by (auto simp: filter_empty_conv)
    then show ?thesis using Some True
      by (simp add: onStatsReset_def setTimeout_def hideTimers_def Let_def)
  next
    case False
    from all have "filter (\<lambda>x. snd (snd x) = HideResetStatsPopup)
                     (filter (\<lambda>t. fst t \<noteq> i) (pendingTimers s)) = []"
      by (auto simp: filter_empty_conv)
    then show ?thesis using Some False
      by (simp add: onStatsReset_def setTimeout_def clearTimeout_def hideTimers_def Let_def)
  qed
qed

lemma timers_ok_setTimeout:
  assumes "timers_ok s" and "cb = HideResetStatsPopup \<longrightarrow> hideTimers s = []"
  shows "timers_ok ((snd (setTimeout s cb delay))\<lparr>closePopupTimeoutId :=
            (if cb = HideResetStatsPopup then Some (nextTimerId s) else closePopupTimeoutId s)\<rparr>)"
proof -
  from assms(1) have lt: "\<forall>x\<in>set (pendingTimers s). 0 < fst x \<and> fst x < nextTimerId s"
    and d: "distinct (map fst (pendingTimers s))" and p: "0 < nextTimerId s"
    and h: "\<forall>x\<in>set (pendingTimers s). snd (snd x) = HideResetStatsPopup \<longrightarrow>
              closePopupTimeoutId s = Some (fst x)"
    by (auto simp: timers_ok_def list_all_iff)
  from lt have fresh: "nextTimerId s \<notin> fst ` set (pendingTimers s)" by auto
  from assms(2) have nh: "cb = HideResetStatsPopup \<Longrightarrow>
      \<forall>x\<in>set (pendingTimers s). snd (snd x) \<noteq> HideResetStatsPopup"
    by (auto simp: hideTimers_def filter_empty_conv)
  show ?thesis
    using lt d p h fresh nh
    by (auto simp: timers_ok_def setTimeout_def list_all_iff less_Suc_eq)
qed

lemma timers_ok_clearTimeout: "timers_ok s \<Longrightarrow> timers_ok (clearTimeout s i)"
  by (auto simp: timers_ok_def clearTimeout_def list_all_iff distinct_map_filter)

lemma timers_ok_display:
  "timers_ok (s\<lparr>resetStatsPopup_display := v\<rparr>) = timers_ok s"
  by (simp add: timers_ok_def)

lemma foldl_run_callback_fields:
  "closePopupTimeoutId (foldl run_callback s cbs) = closePopupTimeoutId s"
  "pendingTimers (foldl run_callback s cbs) = pendingTimers s"
  "nextTimerId (foldl run_callback s cbs) = nextTimerId s"
  "now (foldl run_callback s cbs) = now s"
proof (induction cbs arbitrary: s)
  case Nil
  { case 1 show ?case by simp }
  { case 2 show ?case by simp }
  { case 3 show ?case by simp }
  { case 4 show ?case by simp }
next
  case (Cons cb cbs)
  { case 1 show ?case by (cases cb) (simp_all add: Cons.IH) }
  { case 2 show ?case by (cases cb) (simp_all add: Cons.IH) }
  { case 3 show ?case by (cases cb) (simp_all add: Cons.IH) }
  { case 4 show ?case by (cases cb) (simp_all add: Cons.IH) }
qed

lemma timers_ok_tick: "timers_ok s \<Longrightarrow> timers_ok (tick s)"
  by (auto simp: timers_ok_def tick_def Let_def foldl_run_callback_fields list_all_iff
      distinct_map_filter)

lemma hideTimers_after_clear:
  assumes "timers_ok s"
  shows "hideTimers (case closePopupTimeoutId s of None \<Rightarrow> s
           | Some i \<Rightarrow> if i \<noteq> 0 then clearTimeout s i else s) = []"
  using assms
  by (auto simp: timers_ok_def hideTimers_def clearTimeout_def list_all_iff filter_empty_conv
      split: option.splits)

lemma timers_ok_onStatsReset:
  assumes "timers_ok s"
  shows "timers_ok (onStatsReset s)"
proof -
  let ?s1 = "s\<lparr>resetStatsPopup_display := ''block''\<rparr>"
  let ?s2 = "case closePopupTimeoutId ?s1 of None \<Rightarrow> ?s1
             | Some i \<Rightarrow> if i \<noteq> 0 then clearTimeout ?s1 i else ?s1"
  from assms have ok1: "timers_ok ?s1" by (simp add: timers_ok_display)
  then have ok2: "timers_ok ?s2"
    by (auto simp: timers_ok_clearTimeout split: option.splits)
  from ok1 have e2: "hideTimers ?s2 = []" by (rule hideTimers_after_clear)
  from timers_ok_setTimeout[OF ok2, of HideResetStatsPopup 4000] e2
  have "timers_ok ((snd (setTimeout ?s2 HideResetStatsPopup 4000))
          \<lparr>closePopupTimeoutId := Some (nextTimerId ?s2)\<rparr>)" by simp
  then show ?thesis
    by (simp add: onStatsReset_def Let_def setTimeout_def split: prod.splits)
qed

lemma timers_ok_step: "timers_ok s \<Longrightarrow> timers_ok (page_step s e)"
proof (cases e)
  case StatsReset
  assume "timers_ok s"
  then show ?thesis using StatsReset by (simp add: timers_ok_onStatsReset)
next
  case Tick
  assume "timers_ok s"
  then show ?thesis using Tick by (simp add: timers_ok_tick)
next
  case (OtherSetTimeout delay)
  assume ok: "timers_ok s"
  have same: "(snd (setTimeout s OtherCallback delay))\<lparr>closePopupTimeoutId := closePopupTimeoutId s\<rparr>
                = snd (setTimeout s OtherCallback delay)"
    by (simp add: setTimeout_def)
  from timers_ok_setTimeout[OF ok, of OtherCallback delay]
  show ?thesis using OtherSetTimeout by (simp add: same)
qed

lemma timers_ok_run: "timers_ok s \<Longrightarrow> timers_ok (foldl page_step s evs)"
  by (induction evs arbitrary: s) (simp_all add: timers_ok_step)

text \<open>
  C8. In every state that the page reaches from its start by stats resets, passing time
  and timers set by other code, at most one timer that hides the popup is pending. A
  stats reset in such a state shows the popup and leaves exactly one pending hide timer,
  the one it has just set, due 4000 milliseconds after the reset: a hide timer that was
  pending before has been cleared.
\<close>

theorem stats_reset_single_hide_timer:
  "length (hideTimers (foldl page_step (newPage disp) evs)) \<le> 1
   \<and> hideTimers (onStatsReset (foldl page_step (newPage disp) evs))
     = [(nextTimerId (foldl page_step (newPage disp) evs),
         now (foldl page_step (newPage disp) evs) + 4000, HideResetStatsPopup)]
   \<and> resetStatsPopup_display (onStatsReset (foldl page_step (newPage disp) evs)) = ''block''
   \<and> closePopupTimeoutId (onStatsReset (foldl page_step (newPage disp) evs))
     = Some (nextTimerId (foldl page_step (newPage disp) evs))"
proof -
  let ?s = "foldl page_step (newPage disp) evs"
  have ok: "timers_ok ?s" by (rule timers_ok_run) (rule timers_ok_new)
  from ok have a: "length (hideTimers ?s) \<le> 1" by (rule hideTimers_at_most_one)
  from ok have b: "hideTimers (onStatsReset ?s) = [(nextTimerId ?s, now ?s + 4000, HideResetStatsPopup)]"
    by (rule onStatsReset_hideTimers)
  have c: "resetStatsPopup_display (onStatsReset ?s) = ''block''"
    by (simp add: onStatsReset_def setTimeout_def clearTimeout_def Let_def split: option.splits)
  have d: "closePopupTimeoutId (onStatsReset ?s) = Some (nextTimerId ?s)"
    by (simp add: onStatsReset_def setTimeout_def clearTimeout_def Let_def split: option.splits)
  from a b c d show ?thesis by (intro conjI)
qed

section \<open>Properties of the checkbox widget\<close>

lemma onClicked_fields:
  assumes "onClicked d el chk = Inr d'"
  shows "next_node d' = next_node d"
    and "attributes (elements d' x) = attributes (elements d x)"
    and "listeners (elements d' x) = listeners (elements d x)"
    and "childNodes (elements d' x) = childNodes (elements d x)"
    and "(''toggler'' \<in> set (classList (elements d' x)))
           = (''toggler'' \<in> set (classList (elements d x)))"
    and "ancestors (elements d' x) = ancestors (elements d x)"
proof -
  from assms obtain li where
    d': "d' = (if chk then classList_add (classList_add d el ''active'') li ''active''
               else classList_remove (classList_remove d el ''active'') li ''active'')"
    by (auto simp: onClicked_def Let_def split: option.splits if_splits)
  show "next_node d' = next_node d"
    by (simp add: d' classList_add_def classList_remove_def update_element_def)
  show "attributes (elements d' x) = attributes (elements d x)"
    by (simp add: d' classList_add_def classList_remove_def update_element_def)
  show "listeners (elements d' x) = listeners (elements d x)"
    by (simp add: d' classList_add_def classList_remove_def update_element_def)
  show "childNodes (elements d' x) = childNodes (elements d x)"
    by (simp add: d' classList_add_def classList_remove_def update_element_def)
  show "(''toggler'' \<in> set (classList (elements d' x)))
           = (''toggler'' \<in> set (classList (elements d x)))"
    by (simp add: d' classList_add_def classList_remove_def update_element_def)
  show "ancestors (elements d' x) = ancestors (elements d x)"
    by (simp add: d' classList_add_def classList_remove_def update_element_def)
qed

text \<open>The steps of one decoration, named.\<close>

lemma toggleCheckbox_each_decorated:
  "decorated d c \<Longrightarrow> toggleCheckbox_each d c = Inr d"
  by (simp add: toggleCheckbox_each_def decorated_def)

lemma toggleCheckbox_each_fresh:
  assumes "toggleCheckbox_each d c = Inr d'" and "\<not> decorated d c"
  obtains p d3 d7 where
    "parentNode (classList_add (snd (createElement d ''div'')) (next_node d) ''toggler'') c = Some p"
    "insertBefore (classList_add (snd (createElement d ''div'')) (next_node d) ''toggler'') p
       (next_node d)
       (nextSibling (classList_add (snd (createElement d ''div'')) (next_node d) ''toggler'') c)
     = Inr d3"
    "onClicked
       (set_display
          (addEventListener
             (addEventListener d3 (next_node d) ''click'' (TogglerClick c))
             c ''change'' (CheckboxChange c (next_node d)))
          c ''none'')
       (next_node d)
       (checked (elements d3 c)) = Inr d7"
    "d' = setAttribute d7 c ''toggleCheckbox'' ''true''"
proof -
  have chk: "checked (elements (set_display
          (addEventListener
             (addEventListener d3 (next_node d) ''click'' (TogglerClick c))
             c ''change'' (CheckboxChange c (next_node d)))
          c ''none'') c) = checked (elements d3 c)" for d3
    by (simp add: set_display_def addEventListener_def update_element_def)
  from assms show ?thesis
    by (simp add: toggleCheckbox_each_def decorated_def Let_def createElement_def chk
        split: option.splits sum.splits) (use that in \<open>simp add: createElement_def\<close>)
qed

lemma insert_before_split:
  "insert_before el r cs = Some ys \<Longrightarrow> \<exists>as bs. cs = as @ bs \<and> ys = as @ el # bs"
proof (induction cs arbitrary: ys)
  case Nil
  then show ?case by simp
next
  case (Cons x cs)
  show ?case
  proof (cases "x = r")
    case True
    with Cons.prems have "x # cs = [] @ (x # cs) \<and> ys = [] @ el # (x # cs)" by simp
    then show ?thesis by blast
  next
    case False
    with Cons.prems obtain zs where z: "insert_before el r cs = Some zs" and y: "ys = x # zs"
      by (auto split: option.splits)
    from Cons.IH[OF z] obtain as bs where "cs = as @ bs" "zs = as @ el # bs" by blast
    with y have "x # cs = (x # as) @ bs \<and> ys = (x # as) @ el # bs" by simp
    then show ?thesis by blast
  qed
qed

lemma insertBefore_fields:
  assumes "insertBefore d p el r = Inr d'"
  shows "next_node d' = next_node d"
    and "attributes (elements d' x) = attributes (elements d x)"
    and "listeners (elements d' x) = listeners (elements d x)"
    and "classList (elements d' x) = classList (elements d x)"
    and "checked (elements d' x) = checked (elements d x)"
    and "p \<noteq> el \<Longrightarrow> \<exists>as bs. childNodes (elements d p) = as @ bs
                          \<and> childNodes (elements d' p) = as @ el # bs"
    and "ancestors (elements d' el) = p # ancestors (elements d p)"
proof -
  from assms obtain cs where
    cs: "(case r of None \<Rightarrow> Some (childNodes (elements d p) @ [el])
          | Some r' \<Rightarrow> insert_before el r' (childNodes (elements d p))) = Some cs"
    and d': "d' = update_element (update_element d p (\<lambda>e. e\<lparr>childNodes := cs\<rparr>))
                   el (\<lambda>e. e\<lparr>ancestors := p # ancestors (elements d p)\<rparr>)"
    by (auto simp: insertBefore_def split: option.splits)
  show "next_node d' = next_node d" by (simp add: d' update_element_def)
  show "attributes (elements d' x) = attributes (elements d x)"
    by (simp add: d' update_element_def)
  show "listeners (elements d' x) = listeners (elements d x)"
    by (simp add: d' update_element_def)
  show "classList (elements d' x) = classList (elements d x)"
    by (simp add: d' update_element_def)
  show "checked (elements d' x) = checked (elements d x)"
    by (simp add: d' update_element_def)
  show "ancestors (elements d' el) = p # ancestors (elements d p)"
    by (simp add: d' update_element_def)
  show "\<exists>as bs. childNodes (elements d p) = as @ bs \<and> childNodes (elements d' p) = as @ el # bs"
    if "p \<noteq> el"
  proof -
    from that have c': "childNodes (elements d' p) = cs" by (simp add: d' update_element_def)
    show ?thesis
    proof (cases r)
      case None
      with cs have "cs = childNodes (elements d p) @ [el]" by simp
      then have "childNodes (elements d p) = childNodes (elements d p) @ []
                 \<and> childNodes (elements d' p) = childNodes (elements d p) @ el # []"
        using c' by simp
      then show ?thesis by blast
    next
      case (Some r')
      with cs have "insert_before el r' (childNodes (elements d p)) = Some cs" by simp
      from insert_before_split[OF this] c' show ?thesis by simp
    qed
  qed
qed

lemma each_fresh_fields:
  assumes e: "toggleCheckbox_each d c = Inr d'" and nd: "\<not> decorated d c" and ne: "c \<noteq> next_node d"
  shows "next_node d' = Suc (next_node d)"
    and "listeners (elements d' (next_node d)) = [(''click'', TogglerClick c)]"
    and "listeners (elements d' c)
           = listeners (elements d c) @ [(''change'', CheckboxChange c (next_node d))]"
    and "''toggler'' \<in> set (classList (elements d' (next_node d)))"
    and "x \<noteq> next_node d \<Longrightarrow>
           (''toggler'' \<in> set (classList (elements d' x))) = (''toggler'' \<in> set (classList (elements d x)))"
    and "x \<noteq> next_node d \<Longrightarrow> x \<noteq> c \<Longrightarrow> attributes (elements d' x) = attributes (elements d x)"
    and "\<exists>p. parentNode d c = Some p \<and>
           (p \<noteq> next_node d \<longrightarrow> (\<exists>as bs. childNodes (elements d p) = as @ bs
                          \<and> childNodes (elements d' p) = as @ next_node d # bs))"
    and "parentNode d' (next_node d) = parentNode d c"
proof -
  let ?el = "next_node d"
  let ?d2 = "classList_add (snd (createElement d ''div'')) ?el ''toggler''"
  from toggleCheckbox_each_fresh[OF e nd] obtain p d3 d7 where
    p: "parentNode ?d2 c = Some p"
    and d3: "insertBefore ?d2 p ?el (nextSibling ?d2 c) = Inr d3"
    and d7: "onClicked
       (set_display
          (addEventListener
             (addEventListener d3 ?el ''click'' (TogglerClick c))
             c ''change'' (CheckboxChange c ?el))
          c ''none'')
       ?el (checked (elements d3 c)) = Inr d7"
    and d': "d' = setAttribute d7 c ''toggleCheckbox'' ''true''"
    by blast
  let ?d6 = "set_display
          (addEventListener
             (addEventListener d3 ?el ''click'' (TogglerClick c))
             c ''change'' (CheckboxChange c ?el))
          c ''none''"
  note f7 = onClicked_fields[OF d7]
  note f3 = insertBefore_fields[OF d3]
  have el2: "elements ?d2 ?el = \<lparr>tagName = ''div'', ancestors = [], childNodes = [],
       attributes = Map.empty, classList = [''toggler''], display = [], checked = False,
       listeners = []\<rparr>"
    by (simp add: createElement_def classList_add_def update_element_def)
  have other2: "elements ?d2 y = elements d y" if "y \<noteq> ?el" for y
    using that by (simp add: createElement_def classList_add_def update_element_def)
  have n2: "next_node ?d2 = Suc ?el"
    by (simp add: createElement_def classList_add_def update_element_def)
  show "next_node d' = Suc (next_node d)"
    by (simp add: d' setAttribute_def update_element_def f7(1))
       (simp add: set_display_def addEventListener_def update_element_def f3(1) n2)
  have l6el: "listeners (elements ?d6 ?el) = [(''click'', TogglerClick c)]"
    using ne f3(3)[of ?el] el2
    by (simp add: set_display_def addEventListener_def update_element_def)
  show "listeners (elements d' (next_node d)) = [(''click'', TogglerClick c)]"
    using l6el ne by (simp add: d' setAttribute_def update_element_def f7(3))
  have l6c: "listeners (elements ?d6 c)
           = listeners (elements d c) @ [(''change'', CheckboxChange c ?el)]"
    using ne f3(3)[of c] other2[of c]
    by (simp add: set_display_def addEventListener_def update_element_def)
  show "listeners (elements d' c)
           = listeners (elements d c) @ [(''change'', CheckboxChange c (next_node d))]"
    using l6c by (simp add: d' setAttribute_def update_element_def f7(3))
  have c6: "classList (elements ?d6 y) = classList (elements ?d2 y)" for y
    by (simp add: set_display_def addEventListener_def update_element_def f3(4))
  have t': "(''toggler'' \<in> set (classList (elements d' y)))
              = (''toggler'' \<in> set (classList (elements ?d2 y)))" for y
    by (simp add: d' setAttribute_def update_element_def f7(5) c6)
  show "''toggler'' \<in> set (classList (elements d' (next_node d)))"
    by (simp add: t' el2)
  show "(''toggler'' \<in> set (classList (elements d' x))) = (''toggler'' \<in> set (classList (elements d x)))"
    if "x \<noteq> next_node d"
    using that by (simp add: t' other2)
  show "attributes (elements d' x) = attributes (elements d x)"
    if "x \<noteq> next_node d" "x \<noteq> c"
  proof -
    have "attributes (elements ?d6 x) = attributes (elements d x)"
      using f3(2)[of x] other2[OF that(1)] that
      by (simp add: set_display_def addEventListener_def update_element_def)
    then show ?thesis using that(2) by (simp add: d' setAttribute_def update_element_def f7(2))
  qed
  have pd: "parentNode d c = Some p"
    using p other2[OF ne] by (simp add: parentNode_def)
  have a6: "ancestors (elements ?d6 y) = ancestors (elements d3 y)" for y
    by (simp add: set_display_def addEventListener_def update_element_def)
  have "ancestors (elements d' y) = ancestors (elements d3 y)" for y
    by (simp add: d' setAttribute_def update_element_def f7(6) a6)
  then have "ancestors (elements d' ?el) = ancestors (elements d3 ?el)" .
  with f3(7) pd show "parentNode d' (next_node d) = parentNode d c"
    by (simp add: parentNode_def)
  have "\<exists>as bs. childNodes (elements d p) = as @ bs
                          \<and> childNodes (elements d' p) = as @ next_node d # bs"
    if pne: "p \<noteq> next_node d"
  proof -
    from f3(6)[OF pne] obtain as bs where
      "childNodes (elements ?d2 p) = as @ bs" "childNodes (elements d3 p) = as @ ?el # bs"
      by blast
    moreover have k6: "childNodes (elements ?d6 y) = childNodes (elements d3 y)" for y
      by (simp add: set_display_def addEventListener_def update_element_def)
    have "childNodes (elements d' p) = childNodes (elements d3 p)"
      by (simp add: d' setAttribute_def update_element_def f7(4) k6)
    ultimately have "childNodes (elements d p) = as @ bs
                          \<and> childNodes (elements d' p) = as @ next_node d # bs"
      using other2[OF pne] by simp
    then show ?thesis by blast
  qed
  with pd show "\<exists>p. parentNode d c = Some p \<and>
           (p \<noteq> next_node d \<longrightarrow> (\<exists>as bs. childNodes (elements d p) = as @ bs
                          \<and> childNodes (elements d' p) = as @ next_node d # bs))"
    by blast
qed

lemma each_decorates:
  "toggleCheckbox_each d c = Inr d' \<Longrightarrow> decorated d' c"
proof (cases "decorated d c")
  case True
  assume "toggleCheckbox_each d c = Inr d'"
  with True show ?thesis by (simp add: toggleCheckbox_each_decorated)
next
  case False
  assume e: "toggleCheckbox_each d c = Inr d'"
  from toggleCheckbox_each_fresh[OF e False] obtain d7 where
    "d' = setAttribute d7 c ''toggleCheckbox'' ''true''" by blast
  then show ?thesis
    by (simp add: decorated_def getAttribute_def setAttribute_def update_element_def)
qed

lemma each_next_node:
  assumes "toggleCheckbox_each d c = Inr d'" and "c < next_node d"
  shows "next_node d \<le> next_node d'"
proof (cases "decorated d c")
  case True
  with assms show ?thesis by (simp add: toggleCheckbox_each_decorated)
next
  case False
  from assms(2) have "c \<noteq> next_node d" by simp
  from each_fresh_fields(1)[OF assms(1) False this] show ?thesis by simp
qed

lemma each_keeps:
  assumes e: "toggleCheckbox_each d c = Inr d'" and c: "c < next_node d"
    and x: "decorated d x" "x < next_node d"
  shows "decorated d' x"
proof (cases "decorated d c")
  case True
  with e x show ?thesis by (simp add: toggleCheckbox_each_decorated)
next
  case False
  show ?thesis
  proof (cases "x = c")
    case True
    with e show ?thesis by (simp add: each_decorates)
  next
    case xc: False
    from c have "c \<noteq> next_node d" by simp
    from each_fresh_fields(6)[OF e False this, of x] x(2) xc
    have "attributes (elements d' x) = attributes (elements d x)" by simp
    with x(1) show ?thesis by (simp add: decorated_def getAttribute_def)
  qed
qed

lemma all_keeps:
  "toggleCheckbox d cs = Inr d' \<Longrightarrow> \<forall>c\<in>set cs. c < next_node d \<Longrightarrow>
     decorated d x \<Longrightarrow> x < next_node d \<Longrightarrow> decorated d' x"
proof (induction cs arbitrary: d)
  case Nil
  then show ?case by simp
next
  case (Cons c cs)
  from Cons.prems(1) obtain d1 where e: "toggleCheckbox_each d c = Inr d1"
    and r: "toggleCheckbox d1 cs = Inr d'"
    by (auto split: sum.splits)
  from Cons.prems(2) have c: "c < next_node d" by simp
  from each_next_node[OF e c] have mono: "next_node d \<le> next_node d1" .
  from each_keeps[OF e c Cons.prems(3,4)] have k: "decorated d1 x" .
  from mono Cons.prems(2,4) have "\<forall>c\<in>set cs. c < next_node d1" "x < next_node d1" by auto
  from Cons.IH[OF r this(1) k this(2)] show ?case .
qed

lemma all_decorated:
  "toggleCheckbox d cs = Inr d' \<Longrightarrow> \<forall>c\<in>set cs. c < next_node d \<Longrightarrow> \<forall>c\<in>set cs. decorated d' c"
proof (induction cs arbitrary: d)
  case Nil
  then show ?case by simp
next
  case (Cons c cs)
  from Cons.prems(1) obtain d1 where e: "toggleCheckbox_each d c = Inr d1"
    and r: "toggleCheckbox d1 cs = Inr d'"
    by (auto split: sum.splits)
  from Cons.prems(2) have c: "c < next_node d" by simp
  from e have dc: "decorated d1 c" by (rule each_decorates)
  from each_next_node[OF e c] have mono: "next_node d \<le> next_node d1" .
  with Cons.prems(2) have lt: "\<forall>c\<in>set cs. c < next_node d1" and c1: "c < next_node d1" by auto
  from all_keeps[OF r lt dc c1] have "decorated d' c" .
  moreover from Cons.IH[OF r lt] have "\<forall>c\<in>set cs. decorated d' c" .
  ultimately show ?case by simp
qed

lemma decorated_noop: "\<forall>c\<in>set cs. decorated d c \<Longrightarrow> toggleCheckbox d cs = Inr d"
  by (induction cs) (simp_all add: toggleCheckbox_each_decorated)

lemma toggleCheckbox_twice:
  "toggleCheckbox d cs = Inr d' \<Longrightarrow> \<forall>c\<in>set cs. c < next_node d \<Longrightarrow> toggleCheckbox d' cs = Inr d'"
  by (rule decorated_noop) (rule all_decorated)

lemma one_more_toggler:
  assumes e: "toggleCheckbox_each d c = Inr d'" and nd: "\<not> decorated d c"
    and p: "parentNode d c = Some p"
    and lt: "c < next_node d" "p < next_node d" "\<forall>n\<in>set (childNodes (elements d p)). n < next_node d"
  shows "length (togglers d' p) = Suc (length (togglers d p))"
proof -
  from lt(1) have ne: "c \<noteq> next_node d" by simp
  from lt(2) have pne: "p \<noteq> next_node d" by simp
  from each_fresh_fields(7)[OF e nd ne] p pne obtain as bs where
    old: "childNodes (elements d p) = as @ bs"
    and new: "childNodes (elements d' p) = as @ next_node d # bs"
    by auto
  have same: "(''toggler'' \<in> set (classList (elements d' n)))
                = (''toggler'' \<in> set (classList (elements d n)))"
    if "n \<in> set as \<union> set bs" for n
  proof -
    from that lt(3) old have "n \<noteq> next_node d" by auto
    then show ?thesis by (rule each_fresh_fields(5)[OF e nd ne])
  qed
  have fa: "filter (\<lambda>n. ''toggler'' \<in> set (classList (elements d' n))) as
            = filter (\<lambda>n. ''toggler'' \<in> set (classList (elements d n))) as"
    by (rule filter_cong) (simp_all add: same)
  have fb: "filter (\<lambda>n. ''toggler'' \<in> set (classList (elements d' n))) bs
            = filter (\<lambda>n. ''toggler'' \<in> set (classList (elements d n))) bs"
    by (rule filter_cong) (simp_all add: same)
  from each_fresh_fields(4)[OF e nd ne] show ?thesis
    by (simp add: togglers_def old new fa fb)
qed

text \<open>
  C5. When \<^verbatim>\<open>toggleCheckbox\<close> has returned for a list of elements of the document, a second
  call on the same list returns the document as it is. The first decoration of a
  checkbox adds exactly one toggler to the children of the checkbox's parent, with
  exactly one click listener, and one change listener to the checkbox; after the second
  call there is still one of each.
\<close>

theorem toggleCheckbox_idempotent:
  "(toggleCheckbox d cs = Inr d' \<and> (\<forall>c\<in>set cs. c < next_node d)
      \<longrightarrow> toggleCheckbox d' cs = Inr d')
   \<and> (toggleCheckbox d [c] = Inr d1 \<and> \<not> decorated d c \<and> parentNode d c = Some p \<and>
       c < next_node d \<and> p < next_node d \<and> (\<forall>n\<in>set (childNodes (elements d p)). n < next_node d)
      \<longrightarrow> length (togglers d1 p) = Suc (length (togglers d p))
        \<and> ''toggler'' \<in> set (classList (elements d1 (next_node d)))
        \<and> parentNode d1 (next_node d) = Some p
        \<and> listeners_for d1 (next_node d) ''click'' = [TogglerClick c]
        \<and> listeners_for d1 c ''change''
            = listeners_for d c ''change'' @ [CheckboxChange c (next_node d)]
        \<and> toggleCheckbox d1 [c] = Inr d1)"
proof (intro conjI impI)
  assume "toggleCheckbox d cs = Inr d' \<and> (\<forall>c\<in>set cs. c < next_node d)"
  then have "toggleCheckbox d cs = Inr d'" and "\<forall>c\<in>set cs. c < next_node d" by simp_all
  then show "toggleCheckbox d' cs = Inr d'" by (rule toggleCheckbox_twice)
next
  assume a: "toggleCheckbox d [c] = Inr d1 \<and> \<not> decorated d c \<and> parentNode d c = Some p \<and>
       c < next_node d \<and> p < next_node d \<and> (\<forall>n\<in>set (childNodes (elements d p)). n < next_node d)"
  then have e: "toggleCheckbox_each d c = Inr d1" by (simp split: sum.splits)
  from a have nd: "\<not> decorated d c" and p: "parentNode d c = Some p"
    and lt: "c < next_node d" "p < next_node d" "\<forall>n\<in>set (childNodes (elements d p)). n < next_node d"
    by simp_all
  from lt(1) have ne: "c \<noteq> next_node d" by simp
  note f = each_fresh_fields[OF e nd ne]
  show "length (togglers d1 p) = Suc (length (togglers d p))"
    using e nd p lt by (rule one_more_toggler)
  show "''toggler'' \<in> set (classList (elements d1 (next_node d)))" by (rule f(4))
  show "parentNode d1 (next_node d) = Some p" using f(8) p by simp
  show "listeners_for d1 (next_node d) ''click'' = [TogglerClick c]"
    by (simp add: listeners_for_def f(2))
  show "listeners_for d1 c ''change''
            = listeners_for d c ''change'' @ [CheckboxChange c (next_node d)]"
    by (simp add: listeners_for_def f(3))
  from each_decorates[OF e] show "toggleCheckbox d1 [c] = Inr d1"
    by (simp add: toggleCheckbox_each_decorated)
qed

lemma item_document_decorated:
  "\<exists>d1. toggleCheckbox item_document [1] = Inr d1"
  by (simp add: toggleCheckbox_each_def item_document_def item_elements_def getAttribute_def
      createElement_def classList_add_def update_element_def parentNode_def nextSibling_def
      insertBefore_def addEventListener_def set_display_def onClicked_def closest_def
      setAttribute_def Let_def)

theorem toggleCheckbox_idempotent_witness:
  "\<exists>d1. toggleCheckbox item_document [1] = Inr d1 \<and> 1 < next_node item_document \<and>
     \<not> decorated item_document 1 \<and> parentNode item_document 1 = Some 0 \<and>
     togglers item_document 0 = [] \<and>
     toggleCheckbox d1 [1] = Inr d1 \<and> length (togglers d1 0) = 1 \<and>
     listeners_for d1 3 ''click'' = [TogglerClick 1] \<and>
     listeners_for d1 1 ''change'' = [CheckboxChange 1 3]"
proof -
  from item_document_decorated obtain d1 where d1: "toggleCheckbox item_document [1] = Inr d1"
    by blast
  have h: "\<not> decorated item_document 1" "parentNode item_document 1 = Some 0"
    "1 < next_node item_document" "0 < next_node item_document"
    "\<forall>n\<in>set (childNodes (elements item_document 0)). n < next_node item_document"
    "next_node item_document = 3" "togglers item_document 0 = []"
    "listeners_for item_document 1 ''change'' = []"
    by (simp_all add: decorated_def getAttribute_def parentNode_def togglers_def
        listeners_for_def item_document_def item_elements_def)
  from toggleCheckbox_idempotent[of item_document "[1]" d1 1 d1 0] d1 h
  have "toggleCheckbox d1 [1] = Inr d1 \<and> length (togglers d1 0) = 1 \<and>
     listeners_for d1 3 ''click'' = [TogglerClick 1] \<and>
     listeners_for d1 1 ''change'' = [CheckboxChange 1 3]"
    by simp
  with d1 h show ?thesis by blast
qed

section \<open>Properties of the tab router\<close>

lemma display_fold_remove:
  "display (elements (fold (\<lambda>el d'. classList_remove d' el c) xs d) n) = display (elements d n)"
  by (induction xs arbitrary: d) (simp_all add: classList_remove_def update_element_def)

lemma display_fold_add:
  "display (elements (fold (\<lambda>el d'. classList_add d' el c) xs d) n) = display (elements d n)"
  by (induction xs arbitrary: d) (simp_all add: classList_add_def update_element_def)

lemma display_classList_add:
  "display (elements (classList_add d x c) n) = display (elements d n)"
  by (simp add: classList_add_def update_element_def)

lemma display_classList_remove:
  "display (elements (classList_remove d x c) n) = display (elements d n)"
  by (simp add: classList_remove_def update_element_def)

lemma display_set_display:
  "display (elements (set_display d x v) n) = (if n = x then v else display (elements d n))"
  by (simp add: set_display_def update_element_def)

lemma not_antibanner_whitelist: "\<not> prefix ANTIBANNER WHITELIST" "WHITELIST \<noteq> []"
  by (simp_all add: ANTIBANNER_def WHITELIST_def)

lemma toggleTab_calls:
  assumes "toggleTab qs qsa s = Inr s'"
  shows "callbackCalls s' = callbackCalls s @
           (if resolvedTabId qs (document s) = Some WHITELIST \<and> onHashUpdatedCallback s
            then [WHITELIST] else [])"
proof (cases "resolveTab qs (document s)")
  case (Inl e)
  with assms show ?thesis by (simp add: toggleTab_def)
next
  case (Inr r)
  show ?thesis
  proof (cases r)
    case None
    with Inr assms show ?thesis by (simp add: toggleTab_def resolvedTabId_def)
  next
    case (Some tt)
    obtain tabId tab where tt: "tt = (tabId, tab)" by (cases tt)
    from assms Inr Some tt show ?thesis
      by (auto simp: toggleTab_def resolvedTabId_def Let_def split: sum.splits option.splits)
  qed
qed

lemma resolveTab_whitelist:
  assumes "location_hash d = WHITELIST" and "qs d WHITELIST = Inr (Some w)"
  shows "resolveTab qs d = Inr (Some (WHITELIST, Some w))"
  using assms by (simp add: resolveTab_def not_antibanner_whitelist)

lemma hidePrevTab_hides:
  assumes "prev \<noteq> []" and "\<forall>d. qs d prev = Inr (Some pp)"
    and "\<not> prefix ANTIBANNER prev \<longrightarrow> (\<forall>d. qs d (dataTabSelector prev) = Inr (Some pnav))"
  shows "\<exists>d1. hidePrevTab qs tabs d (Some prev) = Inr d1 \<and> display (elements d1 pp) = ''none''
           \<and> (\<forall>n. n \<noteq> pp \<longrightarrow> display (elements d1 n) = display (elements d n))"
  using assms
  by (simp add: hidePrevTab_def display_set_display display_fold_remove display_classList_remove)

lemma toggleTab_whitelist_shown:
  assumes h: "location_hash (document s) = WHITELIST"
    and w: "\<forall>d. qs d WHITELIST = Inr (Some w)"
    and nav: "\<forall>d. qs d (dataTabSelector WHITELIST) = Inr (Some nav)"
    and prev: "prevTabId s = Some prev" "prev \<noteq> []" "\<forall>d. qs d prev = Inr (Some pp)"
       "\<not> prefix ANTIBANNER prev \<longrightarrow> (\<forall>d. qs d (dataTabSelector prev) = Inr (Some pnav))"
    and ne: "pp \<noteq> w"
  shows "\<exists>s'. toggleTab qs qsa s = Inr s' \<and> display (elements (document s') w) = ''block'' \<and>
           display (elements (document s') pp) = ''none'' \<and>
           callbackCalls s' = callbackCalls s @ (if onHashUpdatedCallback s then [WHITELIST] else []) \<and>
           prevTabId s' = Some WHITELIST"
proof -
  from w have r: "resolveTab qs (document s) = Inr (Some (WHITELIST, Some w))"
    using h by (simp add: resolveTab_whitelist)
  from hidePrevTab_hides[OF prev(2,3,4)] obtain d1 where
    d1: "hidePrevTab qs (qsa (document s) (dataTabSelector ANTIBANNER)) (document s) (Some prev) = Inr d1"
    and p1: "display (elements d1 pp) = ''none''"
    by blast
  have a: "activateNav qs (qsa (document s) (dataTabSelector ANTIBANNER)) d1 WHITELIST
             = Inr (classList_add d1 nav ''active'')"
    using nav by (simp add: activateNav_def not_antibanner_whitelist)
  show ?thesis
    using ne p1
    by (simp add: toggleTab_def r prev(1) d1 a display_set_display display_classList_add)
qed

lemma toggleTab_whitelist_first:
  assumes h: "location_hash (document s) = WHITELIST"
    and w: "\<forall>d. qs d WHITELIST = Inr (Some w)"
    and nav: "\<forall>d. qs d (dataTabSelector WHITELIST) = Inr (Some nav)"
    and prev: "prevTabId s = None"
  shows "\<exists>s'. toggleTab qs qsa s = Inr s' \<and> display (elements (document s') w) = ''block'' \<and>
           callbackCalls s' = callbackCalls s @ (if onHashUpdatedCallback s then [WHITELIST] else []) \<and>
           prevTabId s' = Some WHITELIST"
proof -
  from w have r: "resolveTab qs (document s) = Inr (Some (WHITELIST, Some w))"
    using h by (simp add: resolveTab_whitelist)
  have a: "activateNav qs tabs (document s) WHITELIST
             = Inr (classList_add (document s) nav ''active'')" for tabs
    using nav by (simp add: activateNav_def not_antibanner_whitelist)
  show ?thesis
    by (simp add: toggleTab_def r prev hidePrevTab_def a display_set_display)
qed

lemma toggleTab_defer:
  assumes "prefix ANTIBANNER (location_hash (document s))"
    and "qs (document s) (location_hash (document s)) = Inr None"
  shows "toggleTab qs qsa s = Inr s"
proof -
  from assms(1) have "location_hash (document s) \<noteq> []" by (auto simp: ANTIBANNER_def)
  with assms have "resolveTab qs (document s) = Inr None" by (simp add: resolveTab_def)
  then show ?thesis by (simp add: toggleTab_def)
qed

lemma toggleTab_selector_error:
  assumes "qs (document s) (location_hash (document s)) = Inl e"
    and "location_hash (document s) \<noteq> []"
  shows "toggleTab qs qsa s = Inl e"
proof -
  from assms have "resolveTab qs (document s) = Inl e" by (simp add: resolveTab_def)
  then show ?thesis by (simp add: toggleTab_def)
qed

text \<open>
  C6. The specification states that for every location hash that starts with
  \<^verbatim>\<open>#antibanner\<close> and has no panel in the document yet, \<^verbatim>\<open>toggleTab\<close> changes nothing and
  raises no error. Line 145 passes the hash to \<^verbatim>\<open>querySelector\<close> before the test of line 147:
  for the hash \<^verbatim>\<open>#antibanner!\<close>, which has no panel and is not a selector, the
  \<^verbatim>\<open>SyntaxError\<close> of \<^verbatim>\<open>querySelector\<close> leaves \<^verbatim>\<open>toggleTab\<close>.
\<close>

theorem toggleTab_invalid_hash_counterexample:
  "prefix ANTIBANNER (location_hash (document (settings_menu ''#antibanner!''))) \<and>
   settings_qs_browser (document (settings_menu ''#antibanner!'')) ''#antibanner!''
     = Inl SyntaxError \<and>
   toggleTab settings_qs_browser settings_qsa (settings_menu ''#antibanner!'') = Inl SyntaxError \<and>
   toggleTab settings_qs_browser settings_qsa (settings_menu ''#antibanner!'')
     \<noteq> Inr (settings_menu ''#antibanner!'')"
  by (simp add: toggleTab_def resolveTab_def settings_qs_browser_def settings_menu_def
      settings_document_def ANTIBANNER_def)

text \<open>
  C6, as the code has it. Let the location hash start with \<^verbatim>\<open>#antibanner\<close>. When
  \<^verbatim>\<open>querySelector\<close> returns \<^verbatim>\<open>null\<close> for it (the hash is a selector and the document has no
  element for it), \<^verbatim>\<open>toggleTab\<close> returns without an error and leaves the document, the
  current tab and the calls of the callback as they were. When \<^verbatim>\<open>querySelector\<close> raises
  for it (the hash is not a selector), \<^verbatim>\<open>toggleTab\<close> raises that error.
\<close>

theorem toggleTab_defers_unrendered_panel:
  "prefix ANTIBANNER (location_hash (document s)) \<longrightarrow>
     (qs (document s) (location_hash (document s)) = Inr None \<longrightarrow> toggleTab qs qsa s = Inr s) \<and>
     (qs (document s) (location_hash (document s)) = Inl e \<longrightarrow> toggleTab qs qsa s = Inl e)"
proof (intro impI conjI)
  assume "prefix ANTIBANNER (location_hash (document s))"
    and "qs (document s) (location_hash (document s)) = Inr None"
  then show "toggleTab qs qsa s = Inr s" by (rule toggleTab_defer)
next
  assume p: "prefix ANTIBANNER (location_hash (document s))"
    and q: "qs (document s) (location_hash (document s)) = Inl e"
  from p have "location_hash (document s) \<noteq> []" by (auto simp: ANTIBANNER_def)
  with q show "toggleTab qs qsa s = Inl e" by (rule toggleTab_selector_error)
qed

theorem toggleTab_defers_unrendered_panel_witness:
  "prefix ANTIBANNER (location_hash (document (settings_menu ''#antibanner5''))) \<and>
   settings_qs_browser (document (settings_menu ''#antibanner5'')) ''#antibanner5'' = Inr None \<and>
   toggleTab settings_qs_browser settings_qsa (settings_menu ''#antibanner5'')
     = Inr (settings_menu ''#antibanner5'') \<and>
   prefix ANTIBANNER (location_hash (document (settings_menu ''#antibanner!''))) \<and>
   settings_qs_browser (document (settings_menu ''#antibanner!'')) ''#antibanner!''
     = Inl SyntaxError \<and>
   toggleTab settings_qs_browser settings_qsa (settings_menu ''#antibanner!'') = Inl SyntaxError"
proof -
  have h5: "location_hash (document (settings_menu ''#antibanner5'')) = ''#antibanner5''"
    and hx: "location_hash (document (settings_menu ''#antibanner!'')) = ''#antibanner!''"
    by (simp_all add: settings_menu_def settings_document_def)
  have p5: "prefix ANTIBANNER ''#antibanner5''" and px: "prefix ANTIBANNER ''#antibanner!''"
    by (simp_all add: ANTIBANNER_def)
  have q5: "settings_qs_browser (document (settings_menu ''#antibanner5'')) ''#antibanner5''
              = Inr None"
    by (simp add: settings_qs_browser_def settings_qs_def dataTabSelector_def)
  have qx: "settings_qs_browser (document (settings_menu ''#antibanner!'')) ''#antibanner!''
              = Inl SyntaxError"
    by (simp add: settings_qs_browser_def)
  from toggleTab_defers_unrendered_panel[of "settings_menu ''#antibanner5''"
      settings_qs_browser settings_qsa SyntaxError] h5 p5 q5
  have a: "toggleTab settings_qs_browser settings_qsa (settings_menu ''#antibanner5'')
             = Inr (settings_menu ''#antibanner5'')" by simp
  from toggleTab_defers_unrendered_panel[of "settings_menu ''#antibanner!''"
      settings_qs_browser settings_qsa SyntaxError] hx px qx
  have b: "toggleTab settings_qs_browser settings_qsa (settings_menu ''#antibanner!'')
             = Inl SyntaxError" by simp
  from h5 hx p5 px q5 qx a b show ?thesis by simp
qed

text \<open>
  C7. A call of \<^verbatim>\<open>toggleTab\<close> that returns has called the registered callback exactly once,
  with the tab id, when the tab id it resolved is \<^verbatim>\<open>#whitelist\<close>, and has not called it
  otherwise. With the hash \<^verbatim>\<open>#whitelist\<close>, on a page that has the whitelist panel and its
  navigation button and the panel and button of the previous tab, \<^verbatim>\<open>toggleTab\<close> returns:
  the whitelist panel is shown, the panel of the previous tab (another panel) is hidden,
  the callback has been called once and \<^verbatim>\<open>#whitelist\<close> is the current tab. On the first
  call, when there is no previous tab, the whitelist panel is shown and the callback is
  called once.
\<close>

theorem toggleTab_whitelist_callback:
  "(toggleTab qs qsa s = Inr s' \<longrightarrow>
      callbackCalls s' = callbackCalls s @
        (if resolvedTabId qs (document s) = Some WHITELIST \<and> onHashUpdatedCallback s
         then [WHITELIST] else []))
   \<and> (location_hash (document s) = WHITELIST \<and>
       (\<forall>d. qs d WHITELIST = Inr (Some w)) \<and>
       (\<forall>d. qs d (dataTabSelector WHITELIST) = Inr (Some nav)) \<and>
       prevTabId s = Some prev \<and> prev \<noteq> [] \<and> (\<forall>d. qs d prev = Inr (Some pp)) \<and>
       (\<not> prefix ANTIBANNER prev \<longrightarrow> (\<forall>d. qs d (dataTabSelector prev) = Inr (Some pnav))) \<and>
       pp \<noteq> w \<and> onHashUpdatedCallback s
      \<longrightarrow> (\<exists>s1. toggleTab qs qsa s = Inr s1 \<and>
             display (elements (document s1) w) = ''block'' \<and>
             display (elements (document s1) pp) = ''none'' \<and>
             callbackCalls s1 = callbackCalls s @ [WHITELIST] \<and>
             prevTabId s1 = Some WHITELIST))
   \<and> (location_hash (document s) = WHITELIST \<and>
       (\<forall>d. qs d WHITELIST = Inr (Some w)) \<and>
       (\<forall>d. qs d (dataTabSelector WHITELIST) = Inr (Some nav)) \<and>
       prevTabId s = None \<and> onHashUpdatedCallback s
      \<longrightarrow> (\<exists>s1. toggleTab qs qsa s = Inr s1 \<and>
             display (elements (document s1) w) = ''block'' \<and>
             callbackCalls s1 = callbackCalls s @ [WHITELIST] \<and>
             prevTabId s1 = Some WHITELIST))"
proof (intro conjI impI)
  assume "toggleTab qs qsa s = Inr s'"
  then show "callbackCalls s' = callbackCalls s @
        (if resolvedTabId qs (document s) = Some WHITELIST \<and> onHashUpdatedCallback s
         then [WHITELIST] else [])"
    by (rule toggleTab_calls)
next
  assume a: "location_hash (document s) = WHITELIST \<and>
       (\<forall>d. qs d WHITELIST = Inr (Some w)) \<and>
       (\<forall>d. qs d (dataTabSelector WHITELIST) = Inr (Some nav)) \<and>
       prevTabId s = Some prev \<and> prev \<noteq> [] \<and> (\<forall>d. qs d prev = Inr (Some pp)) \<and>
       (\<not> prefix ANTIBANNER prev \<longrightarrow> (\<forall>d. qs d (dataTabSelector prev) = Inr (Some pnav))) \<and>
       pp \<noteq> w \<and> onHashUpdatedCallback s"
  then have cb: "onHashUpdatedCallback s" by simp
  from a have "\<exists>s1. toggleTab qs qsa s = Inr s1 \<and> display (elements (document s1) w) = ''block'' \<and>
           display (elements (document s1) pp) = ''none'' \<and>
           callbackCalls s1 = callbackCalls s @ (if onHashUpdatedCallback s then [WHITELIST] else []) \<and>
           prevTabId s1 = Some WHITELIST"
    by (intro toggleTab_whitelist_shown[where prev = prev and nav = nav and pnav = pnav]) simp_all
  with cb show "\<exists>s1. toggleTab qs qsa s = Inr s1 \<and>
             display (elements (document s1) w) = ''block'' \<and>
             display (elements (document s1) pp) = ''none'' \<and>
             callbackCalls s1 = callbackCalls s @ [WHITELIST] \<and>
             prevTabId s1 = Some WHITELIST"
    by simp
next
  assume a: "location_hash (document s) = WHITELIST \<and>
       (\<forall>d. qs d WHITELIST = Inr (Some w)) \<and>
       (\<forall>d. qs d (dataTabSelector WHITELIST) = Inr (Some nav)) \<and>
       prevTabId s = None \<and> onHashUpdatedCallback s"
  then have cb: "onHashUpdatedCallback s" by simp
  from a have "\<exists>s1. toggleTab qs qsa s = Inr s1 \<and> display (elements (document s1) w) = ''block'' \<and>
           callbackCalls s1 = callbackCalls s @ (if onHashUpdatedCallback s then [WHITELIST] else []) \<and>
           prevTabId s1 = Some WHITELIST"
    by (intro toggleTab_whitelist_first[where nav = nav]) simp_all
  with cb show "\<exists>s1. toggleTab qs qsa s = Inr s1 \<and>
             display (elements (document s1) w) = ''block'' \<and>
             callbackCalls s1 = callbackCalls s @ [WHITELIST] \<and>
             prevTabId s1 = Some WHITELIST"
    by simp
qed

lemma settings_general_returns:
  "\<exists>s1. toggleTab settings_qs settings_qsa (settings_menu []) = Inr s1"
  by (simp add: toggleTab_def resolveTab_def hidePrevTab_def activateNav_def settings_menu_def
      settings_document_def settings_qs_def GENERAL_SETTINGS_def ANTIBANNER_def
      dataTabSelector_def)

lemma settings_general_resolved:
  "resolvedTabId settings_qs (document (settings_menu [])) = Some GENERAL_SETTINGS"
  by (simp add: resolvedTabId_def resolveTab_def settings_menu_def settings_document_def
      settings_qs_def GENERAL_SETTINGS_def ANTIBANNER_def)

theorem toggleTab_whitelist_callback_witness:
  "location_hash (document (settings_menu ''#whitelist'')) = WHITELIST \<and>
   (\<forall>d. settings_qs d WHITELIST = Inr (Some 1)) \<and>
   (\<forall>d. settings_qs d (dataTabSelector WHITELIST) = Inr (Some 3)) \<and>
   prevTabId (settings_menu ''#whitelist'') = Some ''#general-settings'' \<and>
   (\<forall>d. settings_qs d ''#general-settings'' = Inr (Some 0)) \<and>
   (\<forall>d. settings_qs d (dataTabSelector ''#general-settings'') = Inr (Some 2)) \<and>
   onHashUpdatedCallback (settings_menu ''#whitelist'') \<and>
   (\<exists>s1. toggleTab settings_qs settings_qsa (settings_menu ''#whitelist'') = Inr s1 \<and>
      display (elements (document s1) 1) = ''block'' \<and>
      display (elements (document s1) 0) = ''none'' \<and>
      callbackCalls s1 = [''#whitelist''] \<and>
      prevTabId s1 = Some ''#whitelist'') \<and>
   (\<exists>s2. toggleTab settings_qs settings_qsa (settings_menu []) = Inr s2 \<and> callbackCalls s2 = [])"
proof -
  let ?s = "settings_menu ''#whitelist''"
  have h: "location_hash (document ?s) = WHITELIST"
    "prevTabId ?s = Some ''#general-settings''" "onHashUpdatedCallback ?s" "callbackCalls ?s = []"
    by (simp_all add: settings_menu_def settings_document_def WHITELIST_def)
  have q: "\<forall>d. settings_qs d WHITELIST = Inr (Some 1)"
    "\<forall>d. settings_qs d (dataTabSelector WHITELIST) = Inr (Some 3)"
    "\<forall>d. settings_qs d ''#general-settings'' = Inr (Some 0)"
    "\<forall>d. settings_qs d (dataTabSelector ''#general-settings'') = Inr (Some 2)"
    by (simp_all add: settings_qs_def WHITELIST_def dataTabSelector_def)
  have n: "''#general-settings'' \<noteq> []" "(0::nat) \<noteq> 1" by simp_all
  note T = toggleTab_whitelist_callback[of settings_qs settings_qsa ?s ?s 1 3
      "''#general-settings''" 0 2]
  from T[THEN conjunct2, THEN conjunct1] h q n
  have a: "\<exists>s1. toggleTab settings_qs settings_qsa ?s = Inr s1 \<and>
      display (elements (document s1) 1) = ''block'' \<and>
      display (elements (document s1) 0) = ''none'' \<and>
      callbackCalls s1 = [''#whitelist''] \<and>
      prevTabId s1 = Some ''#whitelist''"
    by (simp add: WHITELIST_def)
  from settings_general_returns obtain s2 where
    s2: "toggleTab settings_qs settings_qsa (settings_menu []) = Inr s2" by blast
  have c0: "callbackCalls (settings_menu []) = []" by (simp add: settings_menu_def)
  have ne: "GENERAL_SETTINGS \<noteq> WHITELIST" by (simp add: GENERAL_SETTINGS_def WHITELIST_def)
  from toggleTab_whitelist_callback[of settings_qs settings_qsa "settings_menu []" s2,
      THEN conjunct1] s2 settings_general_resolved c0 ne
  have "callbackCalls s2 = []" by simp
  with s2 have b: "\<exists>s2. toggleTab settings_qs settings_qsa (settings_menu []) = Inr s2
      \<and> callbackCalls s2 = []" by blast
  from h(1,2,3) q a b show ?thesis by (intro conjI)
qed

end
